theory Spec2Isabelle
  imports Main "HOL-Library.Word"
begin

section \<open>Characters and C strings\<close>

text \<open>
  A C \<^verbatim>\<open>char\<close> is modelled by \<^typ>\<open>char\<close> (one byte, read as 0..255 by
  \<^const>\<open>of_char\<close>). A C string is modelled by the list of its characters before the
  terminating NUL; \<open>cstr_nth\<close> reads \<^verbatim>\<open>s[i]\<close> for \<open>i \<le> strlen s\<close>, the
  terminator included. The classification functions are those of the C library in
  the "C" locale.
\<close>

definition NUL :: char where
  "NUL = CHR 0x00"

definition CHAR_BS :: char where
  "CHAR_BS = CHR 0x08"

definition LF :: char where
  "LF = CHR 0x0A"

definition CR :: char where
  "CR = CHR 0x0D"

definition DQUOTE :: char where
  "DQUOTE = CHR 0x22"

definition cstr_nth :: "string \<Rightarrow> nat \<Rightarrow> char" where
  "cstr_nth s i = (if i < length s then s ! i else NUL)"

definition isspace :: "char \<Rightarrow> bool" where
  "isspace c = (c = CHR 0x20 \<or> (9 \<le> (of_char c :: nat) \<and> (of_char c :: nat) \<le> 13))"

definition isdigit :: "char \<Rightarrow> bool" where
  "isdigit c = (48 \<le> (of_char c :: nat) \<and> (of_char c :: nat) \<le> 57)"

definition isxdigit :: "char \<Rightarrow> bool" where
  "isxdigit c = (isdigit c
     \<or> (65 \<le> (of_char c :: nat) \<and> (of_char c :: nat) \<le> 70)
     \<or> (97 \<le> (of_char c :: nat) \<and> (of_char c :: nat) \<le> 102))"

definition toupper :: "char \<Rightarrow> char" where
  "toupper c = (if 97 \<le> (of_char c :: nat) \<and> (of_char c :: nat) \<le> 122
                then char_of ((of_char c :: nat) - 32) else c)"

definition tolower :: "char \<Rightarrow> char" where
  "tolower c = (if 65 \<le> (of_char c :: nat) \<and> (of_char c :: nat) \<le> 90
                then char_of ((of_char c :: nat) + 32) else c)"

section \<open>ParseParam\<close>

text \<open>
  \<^verbatim>\<open>int8_t ParseParam(char * param, int32_t * retval)\<close> returns one of the codes
  DECVAL, HEXVAL, STRVAL, BADPARAM and stores the number through \<^verbatim>\<open>retval\<close> in the
  first two cases; the model returns the code together with the stored value. The
  accumulator is an \<^verbatim>\<open>int32_t\<close>, a \<^typ>\<open>32 word\<close> here. Both conversion loops count
  with a \<^verbatim>\<open>uint8_t\<close>, which wraps at 256: on a string of 256 or more characters the
  counter never reaches \<^verbatim>\<open>strlen\<close>, so the loops are partial functions.
\<close>

datatype param_result = DECVAL "32 word" | HEXVAL "32 word" | STRVAL | BADPARAM

fun param_code :: "param_result \<Rightarrow> int" where
  "param_code (DECVAL v) = 1"
| "param_code (HEXVAL v) = 2"
| "param_code STRVAL = 3"
| "param_code BADPARAM = - 1"

fun skip_whitespace :: "string \<Rightarrow> string" where
  "skip_whitespace [] = []"
| "skip_whitespace (ch # param) = (if isspace ch then skip_whitespace param else ch # param)"

definition hex_digit :: "char \<Rightarrow> 32 word" where
  "hex_digit ch = (if isdigit ch then of_nat ((of_char ch :: nat) - 48)
                   else of_nat ((of_char ch :: nat) - 65 + 10))"

definition dec_digit :: "char \<Rightarrow> 32 word" where
  "dec_digit ch = of_nat ((of_char ch :: nat) - 48)"

partial_function (option) hex_loop :: "string \<Rightarrow> nat \<Rightarrow> 32 word \<Rightarrow> param_result option" where
  "hex_loop param i val =
     (if i < length param then
        (if isxdigit (toupper (param ! i))
         then hex_loop param ((i + 1) mod 256) (val * 16 + hex_digit (toupper (param ! i)))
         else Some BADPARAM)
      else Some (HEXVAL val))"

partial_function (option) dec_loop :: "string \<Rightarrow> bool \<Rightarrow> nat \<Rightarrow> 32 word \<Rightarrow> param_result option" where
  "dec_loop param neg_val i val =
     (if i < length param then
        (if isdigit (param ! i)
         then dec_loop param neg_val ((i + 1) mod 256) (val * 10 + dec_digit (param ! i))
         else Some BADPARAM)
      else Some (DECVAL (if neg_val then 0 - val else val)))"

definition ParseParam_decimal :: "string \<Rightarrow> param_result option" where
  "ParseParam_decimal param =
     (if cstr_nth param 0 = CHR ''-'' then dec_loop (drop 1 param) True 0 0
      else if \<not> isdigit (cstr_nth param 0) then Some BADPARAM
      else dec_loop param False 0 0)"

definition ParseParam_from :: "string \<Rightarrow> param_result option" where
  "ParseParam_from param =
     (if cstr_nth param 0 = DQUOTE then
        (if cstr_nth param (length param - 1) = DQUOTE then Some STRVAL else Some BADPARAM)
      else if cstr_nth param 0 = CHR ''0'' then
        (if tolower (cstr_nth param 1) = CHR ''x'' then hex_loop (drop 2 param) 0 0
         else ParseParam_decimal param)
      else ParseParam_decimal param)"

definition ParseParam :: "string \<Rightarrow> param_result option" where
  "ParseParam param = ParseParam_from (skip_whitespace param)"

section \<open>The interpreter's state\<close>

text \<open>
  The object's fields, the nested \<^verbatim>\<open>input\<close> struct flattened. \<open>index\<close> is a
  \<^verbatim>\<open>uint8_t\<close> that stays below 80 (see \<open>wf_state\<close> and the invariant lemmas), a
  \<^typ>\<open>nat\<close> here. The buffer is the list of its 80 bytes. The pointers of \<open>argv\<close> are
  offsets into the buffer, and the arrays \<open>argv\<close> and \<open>terminators\<close> are functions of
  the index (only indices in range are ever used). The stream is the list \<open>serial_rx\<close>
  of the bytes that \<^verbatim>\<open>available\<close> reports and \<^verbatim>\<open>read\<close> returns in order; what the
  code writes to the stream and the callbacks it makes are appended to \<open>events\<close>.

  A status is an \<^verbatim>\<open>int8_t\<close>. A command handler is a function of \<open>argc\<close> and of the
  strings that \<open>argv[0..argc-1]\<close> point to, and returns its status; the call itself is
  recorded as an event, with the position of the table entry. The custom error
  handler returns nothing: \<open>errorFunc\<close> says whether one is installed, and its call is
  an event. A name pointer of a table entry is \<open>None\<close> when it is null.
\<close>

type_synonym status = "8 word"

definition CMD_BUF_SIZE :: nat where
  "CMD_BUF_SIZE = 80"

definition CMDLINE_MAX_ARGS :: nat where
  "CMDLINE_MAX_ARGS = 10"

definition CMDLINE_BAD_CMD :: status where
  "CMDLINE_BAD_CMD = - 1"

definition CMDLINE_TOO_MANY_ARGS :: status where
  "CMDLINE_TOO_MANY_ARGS = - 2"

definition CMDLINE_TOO_FEW_ARGS :: status where
  "CMDLINE_TOO_FEW_ARGS = - 3"

definition CMDLINE_INVALID_ARG :: status where
  "CMDLINE_INVALID_ARG = - 4"

type_synonym pfnCmdLine = "nat \<Rightarrow> string list \<Rightarrow> status"

record tCmdLineEntry =
  pcCmd :: "string option"
  pfnCmd :: pfnCmdLine
  pcHelp :: "string option"

datatype event =
    SerialWrite char
  | SerialPrintln string
  | SerialPrint string
  | SerialPrintlnInt int
  | ReadEntry nat
  | CallCommand nat nat "string list"
  | CallDefault nat "string list"
  | CallErrorFunc status

record CommandLine =
  echoEnable :: bool
  crLfechoEnable :: bool
  crLfcmdEnable :: bool
  index :: nat
  g_cCmdBuf :: "char list"
  argv :: "nat \<Rightarrow> nat"
  delimiter :: char
  terminators :: "nat \<Rightarrow> char"
  defaultFunc :: "pfnCmdLine option"
  errorFunc :: bool
  serial_rx :: "char list"
  events :: "event list"

definition SetDefaults :: "bool \<Rightarrow> CommandLine \<Rightarrow> CommandLine" where
  "SetDefaults e s = s\<lparr>echoEnable := e, crLfechoEnable := False, crLfcmdEnable := True,
     delimiter := CHR 0x20, terminators := (terminators s)(0 := CR, 1 := NUL),
     defaultFunc := None, errorFunc := False, index := 0\<rparr>"

definition Terminators :: "string \<Rightarrow> CommandLine \<Rightarrow> CommandLine" where
  "Terminators t s = s\<lparr>terminators := (terminators s)(0 := cstr_nth t 0, 1 := cstr_nth t 1)\<rparr>"

definition FlushReceive :: "CommandLine \<Rightarrow> CommandLine" where
  "FlushReceive s = s\<lparr>index := 0, g_cCmdBuf := (g_cCmdBuf s)[0 := NUL]\<rparr>"

section \<open>CmdLineProcess: the tokenizer\<close>

text \<open>
  The \<^verbatim>\<open>while (*pcChar)\<close> loop of \<open>CmdLineProcess\<close>. \<open>pc\<close> is the offset of
  \<^verbatim>\<open>pcChar\<close> in the buffer; reading past the end of the buffer is undefined in C and
  \<open>None\<close> here. The loop either returns through the too-many-arguments exit or ends at
  the NUL with the token count.
\<close>

datatype tokenized =
    TooManyArgs "char list" "nat \<Rightarrow> nat"
  | Tokenized "char list" "nat \<Rightarrow> nat" nat

function tokenize_loop ::
  "char \<Rightarrow> char list \<Rightarrow> (nat \<Rightarrow> nat) \<Rightarrow> nat \<Rightarrow> bool \<Rightarrow> nat \<Rightarrow> tokenized option" where
  "tokenize_loop d buf av argc bFindArg pc =
     (if length buf \<le> pc then None
      else if buf ! pc = NUL then Some (Tokenized buf av argc)
      else if buf ! pc = d then tokenize_loop d (buf[pc := NUL]) av argc True (pc + 1)
      else if bFindArg then
        (if argc < CMDLINE_MAX_ARGS then tokenize_loop d buf (av(argc := pc)) (argc + 1) False (pc + 1)
         else Some (TooManyArgs buf av))
      else tokenize_loop d buf av argc False (pc + 1))"
  by pat_completeness auto
termination
  by (relation "measure (\<lambda>(d, buf, av, argc, bFindArg, pc). length buf - pc)") auto

declare tokenize_loop.simps [simp del]

text \<open>The C string at offset \<open>p\<close> of the buffer, and the strings of \<open>argv[0..argc-1]\<close>.\<close>

definition cstr_at :: "char list \<Rightarrow> nat \<Rightarrow> string" where
  "cstr_at buf p = takeWhile (\<lambda>c. c \<noteq> NUL) (drop p buf)"

definition arg_strings :: "char list \<Rightarrow> (nat \<Rightarrow> nat) \<Rightarrow> nat \<Rightarrow> string list" where
  "arg_strings buf av argc = map (\<lambda>k. cstr_at buf (av k)) [0..<argc]"

section \<open>CmdLineProcess: the table lookup\<close>

text \<open>
  \<open>strcasecmp\<close> compares two C strings byte by byte after \<open>tolower\<close>; the code uses
  only whether the result is 0. The command table is the list of its entries; the
  entry whose name pointer is null (\<open>None\<close>) ends it, and a table without such an entry
  is read past its end (\<open>None\<close> as the result).
\<close>

fun strcasecmp :: "string \<Rightarrow> string \<Rightarrow> int" where
  "strcasecmp [] [] = 0"
| "strcasecmp [] (y # ys) = - int (of_char (tolower y))"
| "strcasecmp (x # xs) [] = int (of_char (tolower x))"
| "strcasecmp (x # xs) (y # ys) =
     (if tolower x = tolower y then strcasecmp xs ys
      else int (of_char (tolower x)) - int (of_char (tolower y)))"

datatype lookup = Returned status "event list" | NotFound "event list"

fun table_scan ::
  "tCmdLineEntry list \<Rightarrow> nat \<Rightarrow> nat \<Rightarrow> string list \<Rightarrow> event list \<Rightarrow> lookup option" where
  "table_scan [] k argc args ev = None"
| "table_scan (e # es) k argc args ev =
     (case pcCmd e of
        None \<Rightarrow> Some (NotFound (ev @ [ReadEntry k]))
      | Some name \<Rightarrow>
          if strcasecmp (args ! 0) name = 0
          then Some (Returned (pfnCmd e argc args) (ev @ [ReadEntry k, CallCommand k argc args]))
          else table_scan es (k + 1) argc args (ev @ [ReadEntry k]))"

definition unknown_command :: "nat \<Rightarrow> string list \<Rightarrow> CommandLine \<Rightarrow> status \<times> CommandLine" where
  "unknown_command argc args s =
     (case defaultFunc s of
        None \<Rightarrow> (CMDLINE_BAD_CMD, s)
      | Some f \<Rightarrow> (f argc args, s\<lparr>events := events s @ [CallDefault argc args]\<rparr>))"

text \<open>
  \<open>dispatch\<close> is the second half of \<open>CmdLineProcess\<close>, from \<^verbatim>\<open>if (argc)\<close> on: the
  table lookup when there is a token, and the unknown-command path.
\<close>

definition dispatch ::
  "tCmdLineEntry list \<Rightarrow> nat \<Rightarrow> string list \<Rightarrow> CommandLine \<Rightarrow> (status \<times> CommandLine) option" where
  "dispatch g_sCmdTable argc args s =
     (if argc \<noteq> 0 then
        (case table_scan g_sCmdTable 0 argc args (events s) of
           None \<Rightarrow> None
         | Some (Returned st ev) \<Rightarrow> Some (st, s\<lparr>events := ev\<rparr>)
         | Some (NotFound ev) \<Rightarrow> Some (unknown_command argc args (s\<lparr>events := ev\<rparr>)))
      else Some (unknown_command argc args s))"

definition CmdLineProcess :: "tCmdLineEntry list \<Rightarrow> CommandLine \<Rightarrow> (status \<times> CommandLine) option" where
  "CmdLineProcess g_sCmdTable s =
     (case tokenize_loop (delimiter s) (g_cCmdBuf s) (argv s) 0 True 0 of
        None \<Rightarrow> None
      | Some (TooManyArgs buf av) \<Rightarrow>
          Some (CMDLINE_TOO_MANY_ARGS, s\<lparr>g_cCmdBuf := buf, argv := av\<rparr>)
      | Some (Tokenized buf av argc) \<Rightarrow>
          dispatch g_sCmdTable argc (arg_strings buf av argc) (s\<lparr>g_cCmdBuf := buf, argv := av\<rparr>))"

section \<open>DoCmdLine\<close>

text \<open>
  One iteration of the \<^verbatim>\<open>for\<close> loop on the byte just read: the byte is masked to
  7 bits, echoed, and then either ends the scan (\<open>True\<close>: the \<^verbatim>\<open>break\<close>) or is
  handled as a backspace, a line feed or an ordinary character.
\<close>

definition mask7 :: "char \<Rightarrow> char" where
  "mask7 b = char_of ((of_char b :: nat) mod 128)"

definition store_char :: "char \<Rightarrow> CommandLine \<Rightarrow> CommandLine" where
  "store_char ch s = s\<lparr>g_cCmdBuf := (g_cCmdBuf s)[index s := ch], index := index s + 1\<rparr>"

definition echo_char :: "char \<Rightarrow> CommandLine \<Rightarrow> CommandLine" where
  "echo_char ch s =
     (if echoEnable s \<and> ((ch \<noteq> CR \<and> ch \<noteq> LF) \<or> crLfechoEnable s)
      then s\<lparr>events := events s @ [SerialWrite ch]\<rparr> else s)"

definition is_terminator :: "CommandLine \<Rightarrow> char \<Rightarrow> bool" where
  "is_terminator s ch = (ch = terminators s 0 \<or> ch = terminators s 1)"

definition handle_char :: "char \<Rightarrow> CommandLine \<Rightarrow> bool \<times> CommandLine" where
  "handle_char ch s =
     (if is_terminator s ch then
        (True, if ch \<noteq> CR \<and> ch \<noteq> LF then store_char ch s else s)
      else if ch = CHAR_BS then
        (False, if index s \<noteq> 0 then s\<lparr>index := index s - 1\<rparr> else s)
      else if ch = LF then (False, s)
      else (False, store_char ch s))"

text \<open>
  The loop. Its counter \<open>i\<close> starts at \<open>index\<close> and is incremented once per byte
  read, whatever the byte does to \<open>index\<close>. The loop is left in three ways: the
  stream has no byte (\<^verbatim>\<open>return 0\<close>), a terminator was read (\<^verbatim>\<open>break\<close>), or \<open>i\<close> reaches
  \<open>CMD_BUF_SIZE - 1\<close>; the last two go on to the code after the loop, with the last
  byte read in \<open>ch\<close>.
\<close>

datatype scan = NoCommandYet CommandLine | EndOfScan char CommandLine

function DoCmdLine_scan :: "nat \<Rightarrow> char \<Rightarrow> CommandLine \<Rightarrow> scan" where
  "DoCmdLine_scan i ch s =
     (if i < CMD_BUF_SIZE - 1 then
        (case serial_rx s of
           [] \<Rightarrow> NoCommandYet s
         | b # rx \<Rightarrow>
             (case handle_char (mask7 b) (echo_char (mask7 b) (s\<lparr>serial_rx := rx\<rparr>)) of
                (True, s') \<Rightarrow> EndOfScan (mask7 b) s'
              | (False, s') \<Rightarrow> DoCmdLine_scan (i + 1) (mask7 b) s'))
      else EndOfScan ch s)"
  by pat_completeness auto
termination
  by (relation "measure (\<lambda>(i, ch, s). CMD_BUF_SIZE - 1 - i)") auto

declare DoCmdLine_scan.simps [simp del]

text \<open>
  The code after the loop: the buffer is terminated at \<open>index\<close>, a non-empty line is
  passed to \<open>CmdLineProcess\<close> and its status reported, and \<open>index\<close> is reset.
  \<open>strlen\<close> of a buffer with no NUL reads past its end (\<open>None\<close>).
\<close>

definition strlen :: "char list \<Rightarrow> nat option" where
  "strlen buf = (if NUL \<in> set buf then Some (length (takeWhile (\<lambda>c. c \<noteq> NUL) buf)) else None)"

definition println :: "string \<Rightarrow> CommandLine \<Rightarrow> CommandLine" where
  "println msg s = s\<lparr>events := events s @ [SerialPrintln msg]\<rparr>"

definition report_status :: "status \<Rightarrow> CommandLine \<Rightarrow> CommandLine" where
  "report_status nStatus s =
     (if errorFunc s then s\<lparr>events := events s @ [CallErrorFunc nStatus]\<rparr>
      else if nStatus = CMDLINE_BAD_CMD then println ''Bad command!'' s
      else if nStatus = CMDLINE_TOO_MANY_ARGS
        then println ''Too many arguments for command processor!'' s
      else if nStatus = CMDLINE_TOO_FEW_ARGS
        then println ''Not enough arguments for command processor!'' s
      else if nStatus = CMDLINE_INVALID_ARG
        then println ''Invalid argument for command processor!'' s
      else if nStatus \<noteq> 0
        then s\<lparr>events := events s @
               [SerialPrint ''Command returned error code: '', SerialPrintlnInt (sint nStatus)]\<rparr>
      else s)"

definition terminate_line :: "CommandLine \<Rightarrow> CommandLine" where
  "terminate_line s = s\<lparr>g_cCmdBuf := (g_cCmdBuf s)[index s := NUL]\<rparr>"

definition newline_before_dispatch :: "char \<Rightarrow> CommandLine \<Rightarrow> CommandLine" where
  "newline_before_dispatch ch s =
     (if (ch = CR \<or> ch = LF) \<and> crLfcmdEnable s then println [] s else s)"

definition process_line :: "tCmdLineEntry list \<Rightarrow> char \<Rightarrow> CommandLine \<Rightarrow> (int \<times> CommandLine) option" where
  "process_line g_sCmdTable ch s =
     (case strlen (g_cCmdBuf (terminate_line s)) of
        None \<Rightarrow> None
      | Some n \<Rightarrow>
          if 0 < n then
            (case CmdLineProcess g_sCmdTable (newline_before_dispatch ch (terminate_line s)) of
               None \<Rightarrow> None
             | Some (nStatus, s') \<Rightarrow> Some (1, (report_status nStatus s')\<lparr>index := 0\<rparr>))
          else Some (1, (terminate_line s)\<lparr>index := 0\<rparr>))"

definition DoCmdLine :: "tCmdLineEntry list \<Rightarrow> CommandLine \<Rightarrow> (int \<times> CommandLine) option" where
  "DoCmdLine g_sCmdTable s =
     (if serial_rx s = [] then Some (0, s)
      else (case DoCmdLine_scan (index s) NUL s of
              NoCommandYet s' \<Rightarrow> Some (0, s')
            | EndOfScan ch s' \<Rightarrow> process_line g_sCmdTable ch s'))"

text \<open>
  The states the object can be in between two calls: the buffer has its 80 bytes and
  \<open>index\<close> is at most 78 (it is 0 after construction, after a completed line and
  after \<open>FlushReceive\<close>, and a scan that returns 0 leaves it below the loop bound).
\<close>

definition wf_state :: "CommandLine \<Rightarrow> bool" where
  "wf_state s = (length (g_cCmdBuf s) = CMD_BUF_SIZE \<and> index s < CMD_BUF_SIZE - 1)"

text \<open>
  A run of the sketch's \<^verbatim>\<open>loop\<close>: before each call of \<open>DoCmdLine\<close> some bytes (possibly
  none) have arrived on the stream.
\<close>

fun polls :: "tCmdLineEntry list \<Rightarrow> CommandLine \<Rightarrow> char list list \<Rightarrow> CommandLine option" where
  "polls g_sCmdTable s [] = Some s"
| "polls g_sCmdTable s (bytes # later) =
     (case DoCmdLine g_sCmdTable (s\<lparr>serial_rx := serial_rx s @ bytes\<rparr>) of
        None \<Rightarrow> None
      | Some (r, s') \<Rightarrow> polls g_sCmdTable s' later)"

text \<open>
  For the statements about the scan: a byte is \<open>ordinary\<close> when the loop appends it
  (it is, after masking, neither a terminator nor a backspace nor a line feed), and
  \<open>after_scan s l\<close> is the state once the bytes \<open>l\<close> have been echoed and appended one
  by one.
\<close>

definition ordinary :: "(nat \<Rightarrow> char) \<Rightarrow> char \<Rightarrow> bool" where
  "ordinary t b = (mask7 b \<noteq> t 0 \<and> mask7 b \<noteq> t 1 \<and> mask7 b \<noteq> CHAR_BS \<and> mask7 b \<noteq> LF)"

fun after_scan :: "CommandLine \<Rightarrow> char list \<Rightarrow> CommandLine" where
  "after_scan s [] = s"
| "after_scan s (b # bs) = after_scan (store_char (mask7 b) (echo_char (mask7 b) s)) bs"

text \<open>
  \<open>completed_line pre l t\<close> is the line that a scan leaves in the buffer, read as a
  C string, when the buffer held \<open>pre\<close> and the bytes \<open>l\<close> and the terminator \<open>t\<close> arrive:
  the bytes masked to 7 bits, and the terminator as well unless it is CR or LF (or
  unless the bytes fill the buffer, so that the terminator is not read by this scan).
\<close>

definition completed_line :: "char list \<Rightarrow> char list \<Rightarrow> char \<Rightarrow> string" where
  "completed_line pre l t =
     takeWhile (\<lambda>c. c \<noteq> NUL)
       (pre @ map mask7 l @
        (if mask7 t = CR \<or> mask7 t = LF \<or> CMD_BUF_SIZE - 1 \<le> length pre + length l then []
         else [mask7 t]))"

section \<open>The value of a digit string\<close>

text \<open>
  What the two conversion loops of \<open>ParseParam\<close> accumulate over a whole string, with
  the 32-bit wrap-around of the accumulator.
\<close>

fun decimal_value :: "32 word \<Rightarrow> string \<Rightarrow> 32 word" where
  "decimal_value val [] = val"
| "decimal_value val (ch # cs) = decimal_value (val * 10 + dec_digit ch) cs"

fun hex_value :: "32 word \<Rightarrow> string \<Rightarrow> 32 word" where
  "hex_value val [] = val"
| "hex_value val (ch # cs) = hex_value (val * 16 + hex_digit (toupper ch)) cs"

section \<open>The delimiter-split of a line, in the spec's words\<close>

text \<open>
  \<open>split_on\<close> cuts a line at every delimiter; \<open>delimiter_split\<close> drops the empty
  pieces, which collapses consecutive delimiters.
\<close>

fun split_on :: "char \<Rightarrow> string \<Rightarrow> string list" where
  "split_on d [] = [[]]"
| "split_on d (c # cs) =
     (if c = d then [] # split_on d cs
      else (case split_on d cs of [] \<Rightarrow> [[c]] | t # ts \<Rightarrow> (c # t) # ts))"

definition delimiter_split :: "char \<Rightarrow> string \<Rightarrow> string list" where
  "delimiter_split d l = filter (\<lambda>t. t \<noteq> []) (split_on d l)"

section \<open>Auxiliary functions for the tokenizer's correctness\<close>

text \<open>
  \<open>token_starts\<close> lists the offsets at which the loop finds the start of a token,
  \<open>store_args\<close> is the array \<open>argv\<close> after storing them one by one, and \<open>blank\<close> is
  what the loop leaves of a character (a delimiter is overwritten with NUL).
\<close>

fun token_starts :: "char \<Rightarrow> string \<Rightarrow> nat \<Rightarrow> bool \<Rightarrow> nat list" where
  "token_starts d [] pc b = []"
| "token_starts d (c # cs) pc b =
     (if c = d then token_starts d cs (pc + 1) True
      else if b then pc # token_starts d cs (pc + 1) False
      else token_starts d cs (pc + 1) False)"

fun store_args :: "(nat \<Rightarrow> nat) \<Rightarrow> nat \<Rightarrow> nat list \<Rightarrow> (nat \<Rightarrow> nat)" where
  "store_args av argc [] = av"
| "store_args av argc (p # ps) = store_args (av(argc := p)) (argc + 1) ps"

definition blank :: "char \<Rightarrow> char \<Rightarrow> char" where
  "blank d c = (if c = d then NUL else c)"


section \<open>A constructed object and an empty table entry\<close>

text \<open>
  \<open>new_CommandLine\<close> is the object as the constructor leaves it when its storage was
  zero before (an object with static storage duration); \<open>end_of_table\<close> is the entry
  with a null name that ends a command table.
\<close>

definition zeroed :: CommandLine where
  "zeroed = \<lparr>echoEnable = False, crLfechoEnable = False, crLfcmdEnable = False, index = 0,
     g_cCmdBuf = replicate CMD_BUF_SIZE NUL, argv = (\<lambda>k. 0), delimiter = NUL,
     terminators = (\<lambda>k. NUL), defaultFunc = None, errorFunc = False,
     serial_rx = [], events = []\<rparr>"

definition new_CommandLine :: "bool \<Rightarrow> CommandLine" where
  "new_CommandLine e = SetDefaults e zeroed"

definition end_of_table :: tCmdLineEntry where
  "end_of_table = \<lparr>pcCmd = None, pfnCmd = (\<lambda>argc args. 0), pcHelp = None\<rparr>"


lemmas char_eval =
  NUL_def CHAR_BS_def LF_def CR_def DQUOTE_def cstr_nth_def isspace_def isdigit_def
  isxdigit_def toupper_def tolower_def char_of_def bit_iff_odd_drop_bit

lemmas ParseParam_eval =
  ParseParam_def ParseParam_from_def ParseParam_decimal_def hex_loop.simps dec_loop.simps
  hex_digit_def dec_digit_def char_eval

section \<open>ParseParam: the spec's examples\<close>

lemma ParseParam_hex_1A: "ParseParam ''0x1A'' = Some (HEXVAL 26)"
  by (simp add: ParseParam_eval)

lemma ParseParam_minus_42: "ParseParam ''-42'' = Some (DECVAL (- 42))"
  by (simp add: ParseParam_eval)

lemma ParseParam_12a: "ParseParam ''12a'' = Some BADPARAM"
  by (simp add: ParseParam_eval)

lemma ParseParam_quoted_hi: "ParseParam [DQUOTE, CHR ''h'', CHR ''i'', DQUOTE] = Some STRVAL"
  by (simp add: ParseParam_eval)

text \<open>
  C5. The claim: a token that is exactly the prefix "0x" (or "0X") is BADPARAM. The
  code: after the prefix the conversion loop runs over zero characters and the
  function stores 0 and returns HEXVAL.
\<close>

theorem ParseParam_bare_hex_prefix:
  "ParseParam ''0x'' = Some (HEXVAL 0) \<and> ParseParam ''0X'' = Some (HEXVAL 0)"
  by (simp add: ParseParam_eval)

text \<open>
  C6. The claim: after an optional minus sign a first character that is not a digit
  makes the token BADPARAM. The code tests the first character for a digit only when
  there is no minus sign, so the token "-" alone is DECVAL with value 0; the examples
  of the claim hold.
\<close>

theorem ParseParam_bare_minus:
  "ParseParam ''-'' = Some (DECVAL 0)
   \<and> ParseParam ''-42'' = Some (DECVAL (- 42))
   \<and> ParseParam ''12a'' = Some BADPARAM"
  by (simp add: ParseParam_eval)

text \<open>
  C7. The claim: a token that starts with a double quote is STRVAL only if it also
  ends with one and is at least two characters long. The code compares the first and
  the last character only, and for the token of one double quote they are the same
  character: it is STRVAL.
\<close>

theorem ParseParam_lone_quote:
  "ParseParam [DQUOTE] = Some STRVAL"
  by (simp add: ParseParam_eval)

section \<open>ParseParam returns on strings shorter than 256 characters\<close>

text \<open>
  Below 256 characters the \<^verbatim>\<open>uint8_t\<close> counters do not wrap: both loops end, with the
  value of the digits or with BADPARAM at the first character that is not a digit. A
  token taken from the 80-byte line buffer is always that short.
\<close>

lemma dec_loop_value:
  "length param < 256 \<Longrightarrow> i \<le> length param \<Longrightarrow>
   dec_loop param neg_val i val =
     Some (if list_all isdigit (drop i param)
           then DECVAL (if neg_val then 0 - decimal_value val (drop i param)
                        else decimal_value val (drop i param))
           else BADPARAM)"
proof (induction "length param - i" arbitrary: i val)
  case 0
  then show ?case by (subst dec_loop.simps) simp
next
  case (Suc n)
  then have i: "i < length param" by simp
  then have d: "drop i param = param ! i # drop (Suc i) param" by (simp add: Cons_nth_drop_Suc)
  have m: "Suc i mod 256 = Suc i" using i Suc.prems(1) by simp
  show ?case
  proof (cases "isdigit (param ! i)")
    case True
    have n: "n = length param - Suc i" using Suc.hyps(2) by simp
    from Suc.hyps(1) [OF n Suc.prems(1), of "val * 10 + dec_digit (param ! i)"] i True
    show ?thesis by (subst dec_loop.simps) (simp add: m d)
  next
    case False
    then show ?thesis using i by (subst dec_loop.simps) (simp add: d)
  qed
qed

lemma hex_loop_value:
  "length param < 256 \<Longrightarrow> i \<le> length param \<Longrightarrow>
   hex_loop param i val =
     Some (if list_all (\<lambda>ch. isxdigit (toupper ch)) (drop i param)
           then HEXVAL (hex_value val (drop i param))
           else BADPARAM)"
proof (induction "length param - i" arbitrary: i val)
  case 0
  then show ?case by (subst hex_loop.simps) simp
next
  case (Suc n)
  then have i: "i < length param" by simp
  then have d: "drop i param = param ! i # drop (Suc i) param" by (simp add: Cons_nth_drop_Suc)
  have m: "Suc i mod 256 = Suc i" using i Suc.prems(1) by simp
  show ?case
  proof (cases "isxdigit (toupper (param ! i))")
    case True
    have n: "n = length param - Suc i" using Suc.hyps(2) by simp
    from Suc.hyps(1) [OF n Suc.prems(1), of "val * 16 + hex_digit (toupper (param ! i))"] i True
    show ?thesis by (subst hex_loop.simps) (simp add: m d)
  next
    case False
    then show ?thesis using i by (subst hex_loop.simps) (simp add: d)
  qed
qed

lemma length_skip_whitespace: "length (skip_whitespace param) \<le> length param"
  by (induction param) auto

lemma dec_loop_returns: "length param < 256 \<Longrightarrow> \<exists>r. dec_loop param neg_val 0 0 = Some r"
  by (simp add: dec_loop_value)

lemma hex_loop_returns: "length param < 256 \<Longrightarrow> \<exists>r. hex_loop param 0 0 = Some r"
  by (simp add: hex_loop_value)

lemma ParseParam_decimal_returns:
  "length param < 256 \<Longrightarrow> \<exists>r. ParseParam_decimal param = Some r"
  by (simp add: ParseParam_decimal_def dec_loop_returns)

lemma ParseParam_returns:
  assumes "length param < 256"
  shows "\<exists>r. ParseParam param = Some r"
proof -
  have "length (skip_whitespace param) < 256"
    using assms length_skip_whitespace [of param] by simp
  then show ?thesis
    by (simp add: ParseParam_def ParseParam_from_def ParseParam_decimal_returns hex_loop_returns)
qed

lemma ParseParam_decimal_digits:
  assumes "length param < 256" and "param \<noteq> []" and "list_all isdigit param"
  shows "ParseParam_decimal param = Some (DECVAL (decimal_value 0 param))"
    and "ParseParam_decimal (CHR ''-'' # param) = Some (DECVAL (0 - decimal_value 0 param))"
proof -
  from assms(2,3) have h: "isdigit (hd param)" "cstr_nth param 0 = hd param"
    by (cases param; simp add: cstr_nth_def)+
  then have nm: "cstr_nth param 0 \<noteq> CHR ''-''" by (auto simp: isdigit_def)
  show "ParseParam_decimal param = Some (DECVAL (decimal_value 0 param))"
    using h nm assms(3) by (simp add: ParseParam_decimal_def dec_loop_value [OF assms(1)])
  show "ParseParam_decimal (CHR ''-'' # param) = Some (DECVAL (0 - decimal_value 0 param))"
    using assms(3) by (simp add: ParseParam_decimal_def cstr_nth_def dec_loop_value [OF assms(1)])
qed

lemma ParseParam_decimal_bad:
  assumes "length param < 256" and "\<not> list_all isdigit param"
  shows "ParseParam_decimal param = Some BADPARAM \<or> cstr_nth param 0 = CHR ''-''"
  using assms by (auto simp: ParseParam_decimal_def dec_loop_value [OF assms(1)])

lemma ParseParam_from_quote:
  assumes "cstr_nth param 0 = DQUOTE"
  shows "ParseParam_from param = Some (if last param = DQUOTE then STRVAL else BADPARAM)"
proof -
  have ne: "param \<noteq> []" using assms by (auto simp: cstr_nth_def NUL_def DQUOTE_def)
  then have "cstr_nth param (length param - 1) = last param"
    by (simp add: cstr_nth_def last_conv_nth)
  then show ?thesis using assms by (simp add: ParseParam_from_def)
qed

section \<open>The tokenizer computes the delimiter-split\<close>

lemma tokenize_loop_tokens:
  "NUL \<notin> set l \<Longrightarrow> argc + length (token_starts d l (length pre) b) \<le> CMDLINE_MAX_ARGS \<Longrightarrow>
   tokenize_loop d (pre @ l @ NUL # rest) av argc b (length pre) =
     Some (Tokenized (pre @ map (blank d) l @ NUL # rest)
             (store_args av argc (token_starts d l (length pre) b))
             (argc + length (token_starts d l (length pre) b)))"
proof (induction l arbitrary: pre av argc b)
  case Nil
  then show ?case by (subst tokenize_loop.simps) simp
next
  case (Cons c cs)
  have c: "c \<noteq> NUL" and cs: "NUL \<notin> set cs" using Cons.prems(1) by auto
  have shape: "pre @ (c # cs) @ NUL # rest = (pre @ [c]) @ cs @ NUL # rest" by simp
  have upd: "(pre @ (c # cs) @ NUL # rest)[length pre := NUL] = (pre @ [NUL]) @ cs @ NUL # rest"
    by (simp add: list_update_append)
  show ?case
  proof (cases "c = d")
    case True
    have n: "argc + length (token_starts d cs (length (pre @ [NUL])) True) \<le> CMDLINE_MAX_ARGS"
      using Cons.prems(2) True by simp
    show ?thesis
      using Cons.IH [OF cs n, simplified] c True
      by (subst tokenize_loop.simps) (simp add: upd blank_def fun_upd_def)
  next
    case False
    show ?thesis
    proof (cases b)
      case True
      have n: "Suc argc + length (token_starts d cs (length (pre @ [c])) False) \<le> CMDLINE_MAX_ARGS"
        using Cons.prems(2) True False by simp
      then have lt: "argc < CMDLINE_MAX_ARGS" by simp
      show ?thesis
        using Cons.IH [OF cs n, simplified] c True False lt
        by (subst tokenize_loop.simps) (simp add: blank_def fun_upd_def)
    next
      case bf: False
      have n: "argc + length (token_starts d cs (length (pre @ [c])) False) \<le> CMDLINE_MAX_ARGS"
        using Cons.prems(2) bf False by simp
      show ?thesis
        using Cons.IH [OF cs n, simplified] c bf False
        by (subst tokenize_loop.simps) (simp add: blank_def fun_upd_def)
    qed
  qed
qed

lemma tokenize_loop_too_many:
  "NUL \<notin> set l \<Longrightarrow> CMDLINE_MAX_ARGS < argc + length (token_starts d l (length pre) b) \<Longrightarrow>
   argc \<le> CMDLINE_MAX_ARGS \<Longrightarrow>
   \<exists>buf' av'. tokenize_loop d (pre @ l @ NUL # rest) av argc b (length pre) = Some (TooManyArgs buf' av')"
proof (induction l arbitrary: pre av argc b)
  case Nil
  then show ?case by simp
next
  case (Cons c cs)
  have c: "c \<noteq> NUL" and cs: "NUL \<notin> set cs" using Cons.prems(1) by auto
  have upd: "(pre @ (c # cs) @ NUL # rest)[length pre := NUL] = (pre @ [NUL]) @ cs @ NUL # rest"
    by (simp add: list_update_append)
  show ?case
  proof (cases "c = d")
    case True
    have n: "CMDLINE_MAX_ARGS < argc + length (token_starts d cs (length (pre @ [NUL])) True)"
      using Cons.prems(2) True by simp
    show ?thesis
      using Cons.IH [OF cs n Cons.prems(3), simplified] c True
      by (subst tokenize_loop.simps) (simp add: upd fun_upd_def)
  next
    case False
    show ?thesis
    proof (cases b)
      case True
      show ?thesis
      proof (cases "argc < CMDLINE_MAX_ARGS")
        case lt: True
        have n: "CMDLINE_MAX_ARGS < Suc argc + length (token_starts d cs (length (pre @ [c])) False)"
          using Cons.prems(2) True False by simp
        have le: "Suc argc \<le> CMDLINE_MAX_ARGS" using lt by simp
        show ?thesis
          using Cons.IH [OF cs n le, simplified] c True False lt
          by (subst tokenize_loop.simps) (simp add: blank_def fun_upd_def)
      next
        case ge: False
        show ?thesis
          using c True False ge
          by (subst tokenize_loop.simps) (simp)
      qed
    next
      case bf: False
      have n: "CMDLINE_MAX_ARGS < argc + length (token_starts d cs (length (pre @ [c])) False)"
        using Cons.prems(2) bf False by simp
      show ?thesis
        using Cons.IH [OF cs n Cons.prems(3), simplified] c bf False
        by (subst tokenize_loop.simps) (simp add: blank_def fun_upd_def)
    qed
  qed
qed

lemma store_args_below: "j < argc \<Longrightarrow> store_args av argc ps j = av j"
  by (induction ps arbitrary: av argc) auto

lemma store_args_nth: "k < length ps \<Longrightarrow> store_args av argc ps (argc + k) = ps ! k"
proof (induction ps arbitrary: av argc k)
  case Nil
  then show ?case by simp
next
  case (Cons p ps)
  show ?case
  proof (cases k)
    case 0
    then show ?thesis by (simp add: store_args_below)
  next
    case (Suc j)
    then have "j < length ps" using Cons.prems by simp
    from Cons.IH [OF this, of "av(argc := p)" "Suc argc"] Suc show ?thesis
      by (simp add: fun_upd_def)
  qed
qed

lemma arg_strings_store_args:
  "arg_strings buf (store_args av 0 ps) (length ps) = map (cstr_at buf) ps"
  by (rule nth_equalityI) (simp_all add: arg_strings_def store_args_nth [where argc = 0, simplified])

lemma cstr_at_append: "cstr_at (pre @ xs) (length pre) = takeWhile (\<lambda>c. c \<noteq> NUL) xs"
  by (simp add: cstr_at_def)

lemma takeWhile_blank:
  "NUL \<notin> set cs \<Longrightarrow>
   takeWhile (\<lambda>c. c \<noteq> NUL) (map (blank d) cs @ NUL # rest) = takeWhile (\<lambda>c. c \<noteq> d) cs"
  by (induction cs) (auto simp: blank_def)

lemma split_on_unfold:
  "split_on d l =
     takeWhile (\<lambda>c. c \<noteq> d) l #
       (case dropWhile (\<lambda>c. c \<noteq> d) l of [] \<Rightarrow> [] | x # r \<Rightarrow> split_on d r)"
  by (induction l) (auto split: list.splits)

lemma delimiter_split_Nil: "delimiter_split d [] = []"
  by (simp add: delimiter_split_def)

lemma delimiter_split_delim: "delimiter_split d (d # cs) = delimiter_split d cs"
  by (simp add: delimiter_split_def)

lemma delimiter_split_dropWhile:
  "filter (\<lambda>t. t \<noteq> []) (case dropWhile (\<lambda>c. c \<noteq> d) cs of [] \<Rightarrow> [] | x # r \<Rightarrow> split_on d r)
     = delimiter_split d (dropWhile (\<lambda>c. c \<noteq> d) cs)"
proof (cases "dropWhile (\<lambda>c. c \<noteq> d) cs")
  case Nil
  show ?thesis unfolding Nil by (simp add: delimiter_split_def)
next
  case (Cons x r)
  then have "x = d" using hd_dropWhile [of "\<lambda>c. c \<noteq> d" cs] by auto
  show ?thesis unfolding Cons \<open>x = d\<close> by (simp add: delimiter_split_def)
qed

lemma delimiter_split_token:
  "c \<noteq> d \<Longrightarrow> delimiter_split d (c # cs) =
     (c # takeWhile (\<lambda>c. c \<noteq> d) cs) # delimiter_split d (dropWhile (\<lambda>c. c \<noteq> d) cs)"
proof -
  assume c: "c \<noteq> d"
  have "delimiter_split d (c # cs) = filter (\<lambda>t. t \<noteq> []) (split_on d (c # cs))"
    by (simp add: delimiter_split_def)
  also have "split_on d (c # cs) = (c # takeWhile (\<lambda>c. c \<noteq> d) cs) #
       (case dropWhile (\<lambda>c. c \<noteq> d) cs of [] \<Rightarrow> [] | x # r \<Rightarrow> split_on d r)"
    using c by (subst split_on_unfold) simp
  finally show ?thesis by (simp add: delimiter_split_dropWhile)
qed

lemma blank_delim: "blank d d = NUL"
  by (simp add: blank_def)

lemma blank_other: "c \<noteq> d \<Longrightarrow> blank d c = c"
  by (simp add: blank_def)

lemma token_strings:
  "NUL \<notin> set l \<Longrightarrow>
   map (cstr_at (pre @ map (blank d) l @ NUL # rest)) (token_starts d l (length pre) b) =
     (if b then delimiter_split d l else delimiter_split d (dropWhile (\<lambda>c. c \<noteq> d) l))"
proof (induction l arbitrary: pre b)
  case Nil
  then show ?case by (simp add: delimiter_split_Nil)
next
  case (Cons c cs)
  have c: "c \<noteq> NUL" and cs: "NUL \<notin> set cs" using Cons.prems by auto
  show ?case
  proof (cases "c = d")
    case True
    from Cons.IH [OF cs, of "pre @ [NUL]" True] True
    show ?thesis by (simp add: blank_delim delimiter_split_delim)
  next
    case False
    have here: "cstr_at (pre @ c # map (blank d) cs @ NUL # rest) (length pre)
                  = c # takeWhile (\<lambda>c. c \<noteq> d) cs"
      using c by (simp add: cstr_at_append takeWhile_blank [OF cs])
    from Cons.IH [OF cs, of "pre @ [c]" False] False here
    show ?thesis by (simp add: blank_other delimiter_split_token)
  qed
qed

lemma token_count:
  "NUL \<notin> set l \<Longrightarrow> length (token_starts d l 0 True) = length (delimiter_split d l)"
  using token_strings [of l "[]" d rest True, THEN arg_cong, of length] by simp

lemma tokenize_split:
  assumes "NUL \<notin> set l" and "length (delimiter_split d l) \<le> CMDLINE_MAX_ARGS"
  shows "\<exists>buf' av'. tokenize_loop d (l @ NUL # rest) av 0 True 0
           = Some (Tokenized buf' av' (length (delimiter_split d l)))
         \<and> length buf' = length (l @ NUL # rest)
         \<and> arg_strings buf' av' (length (delimiter_split d l)) = delimiter_split d l"
proof -
  let ?ps = "token_starts d l 0 True"
  have n: "length ?ps = length (delimiter_split d l)" by (rule token_count [OF assms(1)])
  have le: "0 + length (token_starts d l (length ([]::char list)) True) \<le> CMDLINE_MAX_ARGS"
    using assms(2) n by simp
  have "tokenize_loop d (l @ NUL # rest) av 0 True 0 =
     Some (Tokenized (map (blank d) l @ NUL # rest) (store_args av 0 ?ps) (length ?ps))"
    using tokenize_loop_tokens [OF assms(1) le, of rest av] by simp
  moreover have "arg_strings (map (blank d) l @ NUL # rest) (store_args av 0 ?ps) (length ?ps)
       = delimiter_split d l"
    using token_strings [OF assms(1), of "[]" d rest True] by (simp add: arg_strings_store_args)
  ultimately show ?thesis using n by simp
qed

lemma tokenize_too_many:
  assumes "NUL \<notin> set l" and "CMDLINE_MAX_ARGS < length (delimiter_split d l)"
  shows "\<exists>buf' av'. tokenize_loop d (l @ NUL # rest) av 0 True 0 = Some (TooManyArgs buf' av')"
  using tokenize_loop_too_many [OF assms(1), of 0 d "[]" True rest av] assms(2)
  by (simp add: token_count [OF assms(1)])

section \<open>The table lookup\<close>

lemma of_char_eq_0_iff: "(of_char c :: nat) = 0 \<longleftrightarrow> c = NUL"
proof -
  have "(of_char c :: nat) = of_char NUL \<longleftrightarrow> c = NUL" by (rule of_char_eq_iff)
  then show ?thesis by (simp add: NUL_def)
qed

lemma tolower_eq_NUL_iff: "tolower c = NUL \<longleftrightarrow> c = NUL"
proof -
  have "(of_char (tolower c) :: nat) = 0 \<longleftrightarrow> (of_char c :: nat) = 0"
    by (auto simp: tolower_def)
  then show ?thesis by (simp add: of_char_eq_0_iff)
qed

lemma int_of_char_diff: "int (of_char a) - int (of_char b) = 0 \<longleftrightarrow> a = b"
  by simp

lemma strcasecmp_eq_0_iff:
  "NUL \<notin> set a \<Longrightarrow> NUL \<notin> set b \<Longrightarrow>
   strcasecmp a b = 0 \<longleftrightarrow> map tolower a = map tolower b"
proof (induction a b rule: strcasecmp.induct)
  case 1
  then show ?case by simp
next
  case (2 y ys)
  then have "tolower y \<noteq> NUL" by (auto simp: tolower_eq_NUL_iff)
  then show ?case by (simp add: of_char_eq_0_iff)
next
  case (3 x xs)
  then have "tolower x \<noteq> NUL" by (auto simp: tolower_eq_NUL_iff)
  then show ?case by (simp add: of_char_eq_0_iff)
next
  case (4 x xs y ys)
  then show ?case by (auto simp: int_of_char_diff)
qed

lemma table_scan_skip:
  "\<forall>x\<in>set before. \<exists>n. pcCmd x = Some n \<and> strcasecmp (args ! 0) n \<noteq> 0 \<Longrightarrow>
   table_scan (before @ es) k argc args ev =
     table_scan es (k + length before) argc args (ev @ map ReadEntry [k..<k + length before])"
proof (induction before arbitrary: k ev)
  case Nil
  then show ?case by simp
next
  case (Cons x xs)
  from Cons.prems obtain n where n: "pcCmd x = Some n" "strcasecmp (args ! 0) n \<noteq> 0" by auto
  have rest: "\<forall>x\<in>set xs. \<exists>n. pcCmd x = Some n \<and> strcasecmp (args ! 0) n \<noteq> 0"
    using Cons.prems by simp
  have step: "table_scan ((x # xs) @ es) k argc args ev =
      table_scan (xs @ es) (Suc k) argc args (ev @ [ReadEntry k])"
    using n by simp
  have upt: "[k..<k + length (x # xs)] = k # [Suc k..<Suc k + length xs]"
    by (simp add: upt_conv_Cons del: upt_Suc)
  show ?case unfolding step Cons.IH [OF rest] upt by simp
qed

lemma table_scan_match:
  assumes "\<forall>x\<in>set before. \<exists>n. pcCmd x = Some n \<and> strcasecmp (args ! 0) n \<noteq> 0"
    and "pcCmd e = Some name" and "strcasecmp (args ! 0) name = 0"
  shows "table_scan (before @ e # after) 0 argc args ev =
     Some (Returned (pfnCmd e argc args)
       (ev @ map ReadEntry [0..<Suc (length before)] @ [CallCommand (length before) argc args]))"
  using assms(2,3) by (simp add: table_scan_skip [OF assms(1)])

lemma table_scan_sentinel:
  assumes "\<forall>x\<in>set before. \<exists>n. pcCmd x = Some n \<and> strcasecmp (args ! 0) n \<noteq> 0"
    and "pcCmd e = None"
  shows "table_scan (before @ e # after) 0 argc args ev =
     Some (NotFound (ev @ map ReadEntry [0..<Suc (length before)]))"
  using assms(2) by (simp add: table_scan_skip [OF assms(1)])

lemma split_on_chars: "t \<in> set (split_on d l) \<Longrightarrow> set t \<subseteq> set l"
  by (induction l arbitrary: t) (fastforce split: if_splits list.splits)+

lemma delimiter_split_chars: "t \<in> set (delimiter_split d l) \<Longrightarrow> set t \<subseteq> set l"
  by (auto simp: delimiter_split_def dest: split_on_chars)

lemma CmdLineProcess_tokens:
  assumes "NUL \<notin> set l" and "g_cCmdBuf s = l @ NUL # rest"
    and "length (delimiter_split (delimiter s) l) \<le> CMDLINE_MAX_ARGS"
  shows "\<exists>buf' av'. length buf' = length (g_cCmdBuf s) \<and>
           CmdLineProcess g_sCmdTable s =
             dispatch g_sCmdTable (length (delimiter_split (delimiter s) l))
               (delimiter_split (delimiter s) l) (s\<lparr>g_cCmdBuf := buf', argv := av'\<rparr>)"
proof -
  from tokenize_split [OF assms(1,3), of rest "argv s"] obtain buf' av' where
    t: "tokenize_loop (delimiter s) (l @ NUL # rest) (argv s) 0 True 0
          = Some (Tokenized buf' av' (length (delimiter_split (delimiter s) l)))"
    and len: "length buf' = length (l @ NUL # rest)"
    and a: "arg_strings buf' av' (length (delimiter_split (delimiter s) l))
          = delimiter_split (delimiter s) l"
    by blast
  have "CmdLineProcess g_sCmdTable s =
          dispatch g_sCmdTable (length (delimiter_split (delimiter s) l))
            (delimiter_split (delimiter s) l) (s\<lparr>g_cCmdBuf := buf', argv := av'\<rparr>)"
    by (simp add: CmdLineProcess_def assms(2) t a)
  with len assms(2) show ?thesis by auto
qed

lemma dispatch_match:
  assumes "\<forall>x\<in>set before. \<exists>n. pcCmd x = Some n \<and> NUL \<notin> set n \<and> map tolower tok \<noteq> map tolower n"
    and "NUL \<notin> set tok"
    and "pcCmd e = Some name" and "NUL \<notin> set name" and "map tolower tok = map tolower name"
  shows "dispatch (before @ e # after) (length (tok # toks)) (tok # toks) s =
     Some (pfnCmd e (length (tok # toks)) (tok # toks),
       s\<lparr>events := events s @ map ReadEntry [0..<Suc (length before)] @
         [CallCommand (length before) (length (tok # toks)) (tok # toks)]\<rparr>)"
proof -
  have b: "\<forall>x\<in>set before. \<exists>n. pcCmd x = Some n \<and> strcasecmp ((tok # toks) ! 0) n \<noteq> 0"
    using assms(1,2) by (fastforce simp: strcasecmp_eq_0_iff)
  have m: "strcasecmp ((tok # toks) ! 0) name = 0"
    using assms(2,4,5) by (simp add: strcasecmp_eq_0_iff)
  show ?thesis
    unfolding dispatch_def table_scan_match [OF b assms(3) m] by simp
qed

lemma dispatch_unknown:
  assumes "\<forall>x\<in>set entries. \<exists>n. pcCmd x = Some n \<and> NUL \<notin> set n \<and> map tolower tok \<noteq> map tolower n"
    and "NUL \<notin> set tok"
    and "pcCmd e = None"
  shows "dispatch (entries @ e # after) (length (tok # toks)) (tok # toks) s =
     Some (unknown_command (length (tok # toks)) (tok # toks)
       (s\<lparr>events := events s @ map ReadEntry [0..<Suc (length entries)]\<rparr>))"
proof -
  have b: "\<forall>x\<in>set entries. \<exists>n. pcCmd x = Some n \<and> strcasecmp ((tok # toks) ! 0) n \<noteq> 0"
    using assms(1,2) by (fastforce simp: strcasecmp_eq_0_iff)
  show ?thesis
    unfolding dispatch_def table_scan_sentinel [OF b assms(3)] by simp
qed

lemma first_token_no_NUL:
  "NUL \<notin> set l \<Longrightarrow> delimiter_split d l = tok # toks \<Longrightarrow> NUL \<notin> set tok"
  using delimiter_split_chars [of tok d l] by auto

text \<open>
  C2. For every line that tokenizes into at least one and at most \<open>CMDLINE_MAX_ARGS\<close>
  tokens: the table is read from its first entry on, the first token is compared with
  each name after ASCII case folding (\<open>tolower\<close> on both sides), and at the first entry
  that matches the handler of that entry is called with \<open>argc\<close> and the tokens, and its
  status is what \<open>CmdLineProcess\<close> returns. No entry after it is read, whatever the
  entries after it are (\<open>after\<close> is arbitrary, so a later entry of the same name is never
  reached).
\<close>

theorem first_match_wins:
  assumes "NUL \<notin> set l" and "g_cCmdBuf s = l @ NUL # rest"
    and "delimiter_split (delimiter s) l = tok # toks"
    and "length (tok # toks) \<le> CMDLINE_MAX_ARGS"
    and "\<forall>x\<in>set before. \<exists>n. pcCmd x = Some n \<and> NUL \<notin> set n \<and> map tolower tok \<noteq> map tolower n"
    and "pcCmd e = Some name" and "NUL \<notin> set name" and "map tolower tok = map tolower name"
  shows "\<exists>s'. CmdLineProcess (before @ e # after) s
                 = Some (pfnCmd e (length (tok # toks)) (tok # toks), s')
           \<and> events s' = events s @ map ReadEntry [0..<Suc (length before)] @
                 [CallCommand (length before) (length (tok # toks)) (tok # toks)]"
proof -
  have n: "length (delimiter_split (delimiter s) l) \<le> CMDLINE_MAX_ARGS"
    using assms(3,4) by simp
  have t: "NUL \<notin> set tok" by (rule first_token_no_NUL [OF assms(1,3)])
  from CmdLineProcess_tokens [OF assms(1,2) n, of "before @ e # after"]
  show ?thesis
    unfolding assms(3) dispatch_match [OF assms(5) t assms(6,7,8)] by auto
qed

text \<open>
  C3. For every line that splits into more than \<open>CMDLINE_MAX_ARGS\<close> tokens,
  \<open>CmdLineProcess\<close> returns \<open>CMDLINE_TOO_MANY_ARGS\<close> and adds no event: no table entry is
  read and neither a table handler nor the default handler is called, for every table
  and every default handler.
\<close>

theorem too_many_arguments:
  assumes "NUL \<notin> set l" and "g_cCmdBuf s = l @ NUL # rest"
    and "CMDLINE_MAX_ARGS < length (delimiter_split (delimiter s) l)"
  shows "\<exists>s'. CmdLineProcess g_sCmdTable s = Some (CMDLINE_TOO_MANY_ARGS, s')
           \<and> events s' = events s"
proof -
  from tokenize_too_many [OF assms(1,3), of rest "argv s"] obtain buf' av' where
    "tokenize_loop (delimiter s) (l @ NUL # rest) (argv s) 0 True 0 = Some (TooManyArgs buf' av')"
    by blast
  then show ?thesis by (simp add: CmdLineProcess_def assms(2))
qed

text \<open>
  C4, as amended. For every line of at least one and at most \<open>CMDLINE_MAX_ARGS\<close> tokens
  whose first token matches no entry of the table (every entry before the null-name
  entry has another name, case folded): with no default handler the status is
  \<open>CMDLINE_BAD_CMD\<close> and no handler is called; with a default handler \<open>f\<close> the status is
  what \<open>f\<close> returns and \<open>f\<close> is called with \<open>argc\<close> and all tokens, the unmatched first
  token as \<open>argv[0]\<close>. (A line of more than \<open>CMDLINE_MAX_ARGS\<close> tokens returns
  \<open>CMDLINE_TOO_MANY_ARGS\<close> without calling the default handler, whatever its first
  token is: see the concrete runs of the dispatcher below.)
\<close>

theorem unknown_command_handling:
  assumes "NUL \<notin> set l" and "g_cCmdBuf s = l @ NUL # rest"
    and "delimiter_split (delimiter s) l = tok # toks"
    and "length (tok # toks) \<le> CMDLINE_MAX_ARGS"
    and "\<forall>x\<in>set entries. \<exists>n. pcCmd x = Some n \<and> NUL \<notin> set n \<and> map tolower tok \<noteq> map tolower n"
    and "pcCmd e = None"
  shows "\<exists>s'. CmdLineProcess (entries @ e # after) s
                 = Some ((case defaultFunc s of None \<Rightarrow> CMDLINE_BAD_CMD
                          | Some f \<Rightarrow> f (length (tok # toks)) (tok # toks)), s')
           \<and> events s' = events s @ map ReadEntry [0..<Suc (length entries)] @
                 (case defaultFunc s of None \<Rightarrow> []
                  | Some f \<Rightarrow> [CallDefault (length (tok # toks)) (tok # toks)])"
proof -
  have n: "length (delimiter_split (delimiter s) l) \<le> CMDLINE_MAX_ARGS"
    using assms(3,4) by simp
  have t: "NUL \<notin> set tok" by (rule first_token_no_NUL [OF assms(1,3)])
  from CmdLineProcess_tokens [OF assms(1,2) n, of "entries @ e # after"]
  show ?thesis
    unfolding assms(3) dispatch_unknown [OF assms(5) t assms(6)]
    by (auto simp: unknown_command_def split: option.splits)
qed

section \<open>Concrete runs of the dispatcher\<close>

lemmas state_eval =
  new_CommandLine_def SetDefaults_def zeroed_def end_of_table_def CMD_BUF_SIZE_def
  CMDLINE_MAX_ARGS_def CMDLINE_BAD_CMD_def CMDLINE_TOO_MANY_ARGS_def
  CMDLINE_TOO_FEW_ARGS_def CMDLINE_INVALID_ARG_def

text \<open>
  The line "list 1" against a table with the names "help", "LIST", "list": the second
  entry is called, the third is never read.
\<close>

theorem first_match_wins_witness:
  "\<exists>s'. CmdLineProcess
           [\<lparr>pcCmd = Some ''help'', pfnCmd = (\<lambda>argc args. 1), pcHelp = None\<rparr>,
            \<lparr>pcCmd = Some ''LIST'', pfnCmd = (\<lambda>argc args. 7), pcHelp = None\<rparr>,
            \<lparr>pcCmd = Some ''list'', pfnCmd = (\<lambda>argc args. 9), pcHelp = None\<rparr>,
            end_of_table]
           ((new_CommandLine True)\<lparr>g_cCmdBuf := ''list 1'' @ NUL # replicate 73 NUL\<rparr>)
         = Some (7, s')
       \<and> events s' = [ReadEntry 0, ReadEntry 1, CallCommand 1 2 [''list'', ''1'']]"
  using first_match_wins [where l = "''list 1''" and rest = "replicate 73 NUL"
      and s = "(new_CommandLine True)\<lparr>g_cCmdBuf := ''list 1'' @ NUL # replicate 73 NUL\<rparr>"
      and tok = "''list''" and toks = "[''1'']"
      and before = "[\<lparr>pcCmd = Some ''help'', pfnCmd = (\<lambda>argc args. 1), pcHelp = None\<rparr>]"
      and e = "\<lparr>pcCmd = Some ''LIST'', pfnCmd = (\<lambda>argc args. 7), pcHelp = None\<rparr>"
      and name = "''LIST''"
      and after = "[\<lparr>pcCmd = Some ''list'', pfnCmd = (\<lambda>argc args. 9), pcHelp = None\<rparr>, end_of_table]"]
  by (simp add: state_eval delimiter_split_def char_eval) (simp add: numeral_2_eq_2)

text \<open>Eleven tokens: the status is \<open>CMDLINE_TOO_MANY_ARGS\<close> and nothing is read or called.\<close>

theorem too_many_arguments_witness:
  "\<exists>s'. CmdLineProcess
           [\<lparr>pcCmd = Some ''a'', pfnCmd = (\<lambda>argc args. 0), pcHelp = None\<rparr>, end_of_table]
           ((new_CommandLine True)\<lparr>g_cCmdBuf := ''a b c d e f g h i j k'' @ NUL # replicate 58 NUL,
              defaultFunc := Some (\<lambda>argc args. 0)\<rparr>)
         = Some (CMDLINE_TOO_MANY_ARGS, s')
       \<and> events s' = []"
  using too_many_arguments [where l = "''a b c d e f g h i j k''" and rest = "replicate 58 NUL"
      and s = "(new_CommandLine True)\<lparr>g_cCmdBuf := ''a b c d e f g h i j k'' @ NUL # replicate 58 NUL,
              defaultFunc := Some (\<lambda>argc args. 0)\<rparr>"
      and g_sCmdTable = "[\<lparr>pcCmd = Some ''a'', pfnCmd = (\<lambda>argc args. 0), pcHelp = None\<rparr>, end_of_table]"]
  by (simp add: state_eval delimiter_split_def char_eval)

text \<open>The unknown command "frob 1", with a default handler that returns 42 and without one.\<close>

theorem unknown_command_handling_witness:
  "(\<exists>s'. CmdLineProcess
           [\<lparr>pcCmd = Some ''help'', pfnCmd = (\<lambda>argc args. 1), pcHelp = None\<rparr>, end_of_table]
           ((new_CommandLine True)\<lparr>g_cCmdBuf := ''frob 1'' @ NUL # replicate 73 NUL,
              defaultFunc := Some (\<lambda>argc args. 42)\<rparr>)
         = Some (42, s')
       \<and> events s' = [ReadEntry 0, ReadEntry 1, CallDefault 2 [''frob'', ''1'']])
   \<and> (\<exists>s'. CmdLineProcess
           [\<lparr>pcCmd = Some ''help'', pfnCmd = (\<lambda>argc args. 1), pcHelp = None\<rparr>, end_of_table]
           ((new_CommandLine True)\<lparr>g_cCmdBuf := ''frob 1'' @ NUL # replicate 73 NUL\<rparr>)
         = Some (CMDLINE_BAD_CMD, s')
       \<and> events s' = [ReadEntry 0, ReadEntry 1])"
  using unknown_command_handling [where l = "''frob 1''" and rest = "replicate 73 NUL"
      and s = "(new_CommandLine True)\<lparr>g_cCmdBuf := ''frob 1'' @ NUL # replicate 73 NUL,
              defaultFunc := Some (\<lambda>argc args. 42)\<rparr>"
      and tok = "''frob''" and toks = "[''1'']"
      and entries = "[\<lparr>pcCmd = Some ''help'', pfnCmd = (\<lambda>argc args. 1), pcHelp = None\<rparr>]"
      and e = end_of_table and after = "[]"]
    unknown_command_handling [where l = "''frob 1''" and rest = "replicate 73 NUL"
      and s = "(new_CommandLine True)\<lparr>g_cCmdBuf := ''frob 1'' @ NUL # replicate 73 NUL\<rparr>"
      and tok = "''frob''" and toks = "[''1'']"
      and entries = "[\<lparr>pcCmd = Some ''help'', pfnCmd = (\<lambda>argc args. 1), pcHelp = None\<rparr>]"
      and e = end_of_table and after = "[]"]
  by (simp add: state_eval delimiter_split_def char_eval) (simp add: numeral_2_eq_2)

lemmas CmdLineProcess_eval =
  CmdLineProcess_def dispatch_def unknown_command_def tokenize_loop.simps arg_strings_def
  cstr_at_def state_eval char_eval

text \<open>
  Eleven tokens whose first matches no entry, with a default handler installed: the
  status is \<open>CMDLINE_TOO_MANY_ARGS\<close>, not the handler's 42, and the handler is not called.
\<close>

theorem unknown_command_too_many_counterexample:
  "map_option fst (CmdLineProcess [end_of_table]
     ((new_CommandLine True)\<lparr>g_cCmdBuf := ''a b c d e f g h i j k'' @ NUL # replicate 58 NUL,
        defaultFunc := Some (\<lambda>argc args. 42)\<rparr>))
     = Some CMDLINE_TOO_MANY_ARGS
   \<and> map_option (\<lambda>r. events (snd r)) (CmdLineProcess [end_of_table]
     ((new_CommandLine True)\<lparr>g_cCmdBuf := ''a b c d e f g h i j k'' @ NUL # replicate 58 NUL,
        defaultFunc := Some (\<lambda>argc args. 42)\<rparr>))
     = Some []
   \<and> CMDLINE_TOO_MANY_ARGS \<noteq> 42
   \<and> hd (delimiter_split (CHR 0x20) ''a b c d e f g h i j k'') = ''a''"
  by (simp add: CmdLineProcess_eval delimiter_split_def)

section \<open>The scan of DoCmdLine\<close>

lemma store_char_fields [simp]:
  "index (store_char c s) = index s + 1"
  "g_cCmdBuf (store_char c s) = (g_cCmdBuf s)[index s := c]"
  "terminators (store_char c s) = terminators s"
  "delimiter (store_char c s) = delimiter s"
  "argv (store_char c s) = argv s"
  "defaultFunc (store_char c s) = defaultFunc s"
  "errorFunc (store_char c s) = errorFunc s"
  "echoEnable (store_char c s) = echoEnable s"
  "crLfechoEnable (store_char c s) = crLfechoEnable s"
  "crLfcmdEnable (store_char c s) = crLfcmdEnable s"
  "serial_rx (store_char c s) = serial_rx s"
  "events (store_char c s) = events s"
  by (simp_all add: store_char_def)

lemma echo_char_fields [simp]:
  "index (echo_char c s) = index s"
  "g_cCmdBuf (echo_char c s) = g_cCmdBuf s"
  "terminators (echo_char c s) = terminators s"
  "delimiter (echo_char c s) = delimiter s"
  "argv (echo_char c s) = argv s"
  "defaultFunc (echo_char c s) = defaultFunc s"
  "errorFunc (echo_char c s) = errorFunc s"
  "echoEnable (echo_char c s) = echoEnable s"
  "crLfechoEnable (echo_char c s) = crLfechoEnable s"
  "crLfcmdEnable (echo_char c s) = crLfcmdEnable s"
  "serial_rx (echo_char c s) = serial_rx s"
  by (simp_all add: echo_char_def)

lemma store_char_serial_rx: "store_char c (s\<lparr>serial_rx := x\<rparr>) = (store_char c s)\<lparr>serial_rx := x\<rparr>"
  by (simp add: store_char_def)

lemma echo_char_serial_rx: "echo_char c (s\<lparr>serial_rx := x\<rparr>) = (echo_char c s)\<lparr>serial_rx := x\<rparr>"
  by (simp add: echo_char_def)

lemma after_scan_serial_rx: "after_scan (s\<lparr>serial_rx := x\<rparr>) l = (after_scan s l)\<lparr>serial_rx := x\<rparr>"
  by (induction l arbitrary: s) (simp_all add: store_char_serial_rx echo_char_serial_rx)

lemma after_scan_fields [simp]:
  "index (after_scan s l) = index s + length l"
  "terminators (after_scan s l) = terminators s"
  "delimiter (after_scan s l) = delimiter s"
  "argv (after_scan s l) = argv s"
  "defaultFunc (after_scan s l) = defaultFunc s"
  "errorFunc (after_scan s l) = errorFunc s"
  "echoEnable (after_scan s l) = echoEnable s"
  "crLfechoEnable (after_scan s l) = crLfechoEnable s"
  "crLfcmdEnable (after_scan s l) = crLfcmdEnable s"
  "serial_rx (after_scan s l) = serial_rx s"
  "length (g_cCmdBuf (after_scan s l)) = length (g_cCmdBuf s)"
  by (induction l arbitrary: s) simp_all

lemma after_scan_buffer:
  "index s + length l \<le> length (g_cCmdBuf s) \<Longrightarrow>
   g_cCmdBuf (after_scan s l) =
     take (index s) (g_cCmdBuf s) @ map mask7 l @ drop (index s + length l) (g_cCmdBuf s)"
proof (induction l arbitrary: s)
  case Nil
  then show ?case by simp
next
  case (Cons b bs)
  let ?s1 = "store_char (mask7 b) (echo_char (mask7 b) s)"
  have k: "index s < length (g_cCmdBuf s)" using Cons.prems by simp
  have "index ?s1 + length bs \<le> length (g_cCmdBuf ?s1)" using Cons.prems by simp
  from Cons.IH [OF this] k show ?case
    by (simp add: take_Suc_conv_app_nth)
qed

lemma handle_char_ordinary:
  "ordinary (terminators s) b \<Longrightarrow> handle_char (mask7 b) s = (False, store_char (mask7 b) s)"
  by (simp add: handle_char_def ordinary_def is_terminator_def)

lemma scan_ordinary:
  "\<forall>b\<in>set l. ordinary (terminators s) b \<Longrightarrow> serial_rx s = l @ rx \<Longrightarrow>
   i + length l \<le> CMD_BUF_SIZE - 1 \<Longrightarrow>
   DoCmdLine_scan i ch s =
     DoCmdLine_scan (i + length l) (if l = [] then ch else mask7 (last l))
       ((after_scan s l)\<lparr>serial_rx := rx\<rparr>)"
proof (induction l arbitrary: i ch s)
  case Nil
  then have "rx = serial_rx s" by simp
  then show ?case by simp
next
  case (Cons b bs)
  let ?s1 = "store_char (mask7 b) (echo_char (mask7 b) (s\<lparr>serial_rx := bs @ rx\<rparr>))"
  have ob: "ordinary (terminators s) b" using Cons.prems(1) by simp
  have i: "i < CMD_BUF_SIZE - 1" using Cons.prems(3) by simp
  have step: "DoCmdLine_scan i ch s = DoCmdLine_scan (i + 1) (mask7 b) ?s1"
    using i Cons.prems(2) handle_char_ordinary [of "echo_char (mask7 b) (s\<lparr>serial_rx := bs @ rx\<rparr>)" b] ob
    by (subst DoCmdLine_scan.simps) simp
  have o1: "\<forall>b\<in>set bs. ordinary (terminators ?s1) b" using Cons.prems(1) by simp
  have r1: "serial_rx ?s1 = bs @ rx" by simp
  have n1: "(i + 1) + length bs \<le> CMD_BUF_SIZE - 1" using Cons.prems(3) by simp
  have last: "(if bs = [] then mask7 b else mask7 (last bs)) = mask7 (last (b # bs))" by simp
  have st: "(after_scan ?s1 bs)\<lparr>serial_rx := rx\<rparr> = (after_scan s (b # bs))\<lparr>serial_rx := rx\<rparr>"
    by (simp add: store_char_serial_rx echo_char_serial_rx after_scan_serial_rx)
  show ?case
    unfolding step Cons.IH [OF o1 r1 n1] last st by simp
qed

lemma scan_bound: "CMD_BUF_SIZE - 1 \<le> i \<Longrightarrow> DoCmdLine_scan i ch s = EndOfScan ch s"
  by (subst DoCmdLine_scan.simps) simp

lemma scan_empty:
  "i < CMD_BUF_SIZE - 1 \<Longrightarrow> serial_rx s = [] \<Longrightarrow> DoCmdLine_scan i ch s = NoCommandYet s"
  by (subst DoCmdLine_scan.simps) simp

lemma scan_terminator:
  "i < CMD_BUF_SIZE - 1 \<Longrightarrow> serial_rx s = t # rx \<Longrightarrow> is_terminator s (mask7 t) \<Longrightarrow>
   DoCmdLine_scan i ch s =
     EndOfScan (mask7 t)
       (if mask7 t \<noteq> CR \<and> mask7 t \<noteq> LF
        then store_char (mask7 t) (echo_char (mask7 t) (s\<lparr>serial_rx := rx\<rparr>))
        else echo_char (mask7 t) (s\<lparr>serial_rx := rx\<rparr>))"
  by (subst DoCmdLine_scan.simps) (simp add: handle_char_def is_terminator_def)

section \<open>Cursor bound and termination of the buffer\<close>

lemma handle_char_bounds:
  "handle_char c s = (brk, s') \<Longrightarrow>
   index s' \<le> index s + 1 \<and> length (g_cCmdBuf s') = length (g_cCmdBuf s)"
  by (auto simp: handle_char_def split: if_splits)

lemma scan_invariant:
  "index s \<le> i \<Longrightarrow>
   (\<forall>s'. DoCmdLine_scan i ch s = NoCommandYet s' \<longrightarrow>
      index s' < CMD_BUF_SIZE - 1 \<and> length (g_cCmdBuf s') = length (g_cCmdBuf s)) \<and>
   (\<forall>ch' s'. DoCmdLine_scan i ch s = EndOfScan ch' s' \<longrightarrow>
      index s' \<le> max i (CMD_BUF_SIZE - 1) \<and> length (g_cCmdBuf s') = length (g_cCmdBuf s))"
proof (induction i ch s rule: DoCmdLine_scan.induct)
  case (1 i ch s)
  show ?case
  proof (cases "i < CMD_BUF_SIZE - 1")
    case False
    then show ?thesis using "1.prems" by (subst (1 2) DoCmdLine_scan.simps) simp
  next
    case i: True
    show ?thesis
    proof (cases "serial_rx s")
      case Nil
      then show ?thesis using i "1.prems" by (subst (1 2) DoCmdLine_scan.simps) simp
    next
      case (Cons b rx)
      obtain brk s1 where h: "handle_char (mask7 b) (echo_char (mask7 b) (s\<lparr>serial_rx := rx\<rparr>)) = (brk, s1)"
        by (cases "handle_char (mask7 b) (echo_char (mask7 b) (s\<lparr>serial_rx := rx\<rparr>))") auto
      from handle_char_bounds [OF h]
      have b1: "index s1 \<le> index s + 1" and l1: "length (g_cCmdBuf s1) = length (g_cCmdBuf s)"
        by simp_all
      show ?thesis
      proof (cases brk)
        case True
        then show ?thesis using i Cons h b1 l1 "1.prems"
          by (subst (1 2) DoCmdLine_scan.simps) (simp add: max_def)
      next
        case False
        have le: "index s1 \<le> i + 1" using b1 "1.prems" by simp
        from "1.IH" [OF i Cons h [symmetric]] False le
        have IH: "(\<forall>s'. DoCmdLine_scan (i + 1) (mask7 b) s1 = NoCommandYet s' \<longrightarrow>
            index s' < CMD_BUF_SIZE - 1 \<and> length (g_cCmdBuf s') = length (g_cCmdBuf s1)) \<and>
          (\<forall>ch' s'. DoCmdLine_scan (i + 1) (mask7 b) s1 = EndOfScan ch' s' \<longrightarrow>
            index s' \<le> max (i + 1) (CMD_BUF_SIZE - 1) \<and> length (g_cCmdBuf s') = length (g_cCmdBuf s1))"
          by simp
        have step: "DoCmdLine_scan i ch s = DoCmdLine_scan (i + 1) (mask7 b) s1"
          using i Cons h False by (subst DoCmdLine_scan.simps) simp
        show ?thesis unfolding step using IH l1 i by (simp add: max_def)
      qed
    qed
  qed
qed

lemma tokenize_loop_total:
  "NUL \<in> set (drop pc buf) \<Longrightarrow>
   (\<exists>buf' av'. tokenize_loop d buf av argc b pc = Some (TooManyArgs buf' av') \<and> length buf' = length buf) \<or>
   (\<exists>buf' av' n. tokenize_loop d buf av argc b pc = Some (Tokenized buf' av' n) \<and> length buf' = length buf)"
proof (induction d buf av argc b pc rule: tokenize_loop.induct)
  case (1 d buf av argc bFindArg pc)
  have pc: "pc < length buf" using "1.prems" by (cases "pc < length buf") auto
  show ?case
  proof (cases "buf ! pc = NUL")
    case True
    then show ?thesis using pc by (subst (1 2) tokenize_loop.simps) simp
  next
    case nz: False
    have dr: "drop pc buf = buf ! pc # drop (Suc pc) buf" using pc by (simp add: Cons_nth_drop_Suc)
    have nxt: "NUL \<in> set (drop (pc + 1) buf)" using "1.prems" nz dr by auto
    show ?thesis
    proof (cases "buf ! pc = d")
      case True
      have "NUL \<in> set (drop (pc + 1) (buf[pc := NUL]))" using nxt by (simp add: drop_update_cancel)
      from "1.IH"(1) [OF _ nz True this] pc show ?thesis
        using nz True by (subst (1 2) tokenize_loop.simps) simp
    next
      case nd: False
      show ?thesis
      proof (cases bFindArg)
        case True
        show ?thesis
        proof (cases "argc < CMDLINE_MAX_ARGS")
          case lt: True
          from "1.IH"(2) [OF _ nz nd True lt nxt] pc show ?thesis
            using nz nd True lt by (subst (1 2) tokenize_loop.simps) (simp add: fun_upd_def)
        next
          case False
          then show ?thesis using pc nz nd True by (subst (1 2) tokenize_loop.simps) simp
        qed
      next
        case False
        from "1.IH"(3) [OF _ nz nd False nxt] pc show ?thesis
          using nz nd False by (subst (1 2) tokenize_loop.simps) simp
      qed
    qed
  qed
qed

lemma table_scan_total:
  "\<exists>e\<in>set tbl. pcCmd e = None \<Longrightarrow> \<exists>r. table_scan tbl k argc args ev = Some r"
  by (induction tbl arbitrary: k ev) (auto split: option.splits)

lemma unknown_command_fields:
  "unknown_command argc args s = (st, s') \<Longrightarrow>
   index s' = index s \<and> g_cCmdBuf s' = g_cCmdBuf s"
  by (auto simp: unknown_command_def split: option.splits)

lemma dispatch_total:
  assumes "\<exists>e\<in>set tbl. pcCmd e = None"
  shows "\<exists>st s'. dispatch tbl argc args s = Some (st, s') \<and> index s' = index s
           \<and> g_cCmdBuf s' = g_cCmdBuf s"
proof (cases "argc = 0")
  case True
  then show ?thesis
    using unknown_command_fields [of argc args s]
    by (cases "unknown_command argc args s") (auto simp: dispatch_def)
next
  case False
  from table_scan_total [OF assms, of 0 argc args "events s"] obtain r where
    r: "table_scan tbl 0 argc args (events s) = Some r" by blast
  show ?thesis
  proof (cases r)
    case (Returned st ev)
    then show ?thesis using False r by (simp add: dispatch_def)
  next
    case (NotFound ev)
    then show ?thesis
      using False r unknown_command_fields [of argc args "s\<lparr>events := ev\<rparr>"]
      by (cases "unknown_command argc args (s\<lparr>events := ev\<rparr>)") (auto simp: dispatch_def)
  qed
qed

lemma CmdLineProcess_total:
  assumes "\<exists>e\<in>set tbl. pcCmd e = None" and "NUL \<in> set (g_cCmdBuf s)"
  shows "\<exists>st s'. CmdLineProcess tbl s = Some (st, s') \<and> index s' = index s
           \<and> length (g_cCmdBuf s') = length (g_cCmdBuf s)"
proof -
  from tokenize_loop_total [of 0 "g_cCmdBuf s" "delimiter s" "argv s" 0 True] assms(2)
  consider buf' av' where "tokenize_loop (delimiter s) (g_cCmdBuf s) (argv s) 0 True 0
        = Some (TooManyArgs buf' av')" "length buf' = length (g_cCmdBuf s)"
    | buf' av' n where "tokenize_loop (delimiter s) (g_cCmdBuf s) (argv s) 0 True 0
        = Some (Tokenized buf' av' n)" "length buf' = length (g_cCmdBuf s)"
    by auto
  then show ?thesis
  proof cases
    case 1
    then show ?thesis by (simp add: CmdLineProcess_def)
  next
    case 2
    from dispatch_total [OF assms(1), of n "arg_strings buf' av' n" "s\<lparr>g_cCmdBuf := buf', argv := av'\<rparr>"]
    show ?thesis using 2 by (auto simp: CmdLineProcess_def)
  qed
qed

lemma report_status_fields [simp]:
  "index (report_status st s) = index s"
  "g_cCmdBuf (report_status st s) = g_cCmdBuf s"
  by (simp_all add: report_status_def println_def)

lemma terminate_line_NUL:
  "index s < length (g_cCmdBuf s) \<Longrightarrow>
   g_cCmdBuf (terminate_line s) ! index s = NUL \<and> NUL \<in> set (g_cCmdBuf (terminate_line s))
   \<and> length (g_cCmdBuf (terminate_line s)) = length (g_cCmdBuf s)"
  by (auto simp: terminate_line_def set_update_memI)

lemma process_line_total:
  assumes "\<exists>e\<in>set tbl. pcCmd e = None" and "index s < length (g_cCmdBuf s)"
  shows "\<exists>s'. process_line tbl ch s = Some (1, s') \<and> index s' = 0
           \<and> length (g_cCmdBuf s') = length (g_cCmdBuf s)"
proof -
  from terminate_line_NUL [OF assms(2)]
  have nul: "NUL \<in> set (g_cCmdBuf (terminate_line s))"
    and len: "length (g_cCmdBuf (terminate_line s)) = length (g_cCmdBuf s)" by simp_all
  let ?s1 = "newline_before_dispatch ch (terminate_line s)"
  have b1: "g_cCmdBuf ?s1 = g_cCmdBuf (terminate_line s)"
    by (simp add: newline_before_dispatch_def println_def)
  from CmdLineProcess_total [OF assms(1), of ?s1] nul b1 obtain st s' where
    "CmdLineProcess tbl ?s1 = Some (st, s')" "length (g_cCmdBuf s') = length (g_cCmdBuf ?s1)"
    by auto
  then show ?thesis using nul len b1
    by (auto simp: process_line_def strlen_def)
qed

lemma DoCmdLine_total:
  assumes "wf_state s" and "\<exists>e\<in>set tbl. pcCmd e = None"
  shows "\<exists>r s'. DoCmdLine tbl s = Some (r, s') \<and> (r = 0 \<or> r = 1) \<and> wf_state s'"
proof (cases "serial_rx s = []")
  case True
  then show ?thesis using assms(1) by (simp add: DoCmdLine_def)
next
  case False
  have inv: "index s \<le> index s" by simp
  note I = scan_invariant [OF inv, of NUL]
  show ?thesis
  proof (cases "DoCmdLine_scan (index s) NUL s")
    case (NoCommandYet s')
    with I assms(1) False show ?thesis by (auto simp: DoCmdLine_def wf_state_def)
  next
    case (EndOfScan ch s')
    with I assms(1) have "index s' \<le> CMD_BUF_SIZE - 1" "length (g_cCmdBuf s') = CMD_BUF_SIZE"
      by (auto simp: wf_state_def max_def)
    then have "index s' < length (g_cCmdBuf s')" by (simp add: CMD_BUF_SIZE_def)
    from process_line_total [OF assms(2) this, of ch] \<open>length (g_cCmdBuf s') = CMD_BUF_SIZE\<close>
    show ?thesis using EndOfScan False by (auto simp: DoCmdLine_def wf_state_def CMD_BUF_SIZE_def)
  qed
qed

lemma polls_total:
  assumes "\<exists>e\<in>set tbl. pcCmd e = None"
  shows "wf_state s \<Longrightarrow> \<exists>s'. polls tbl s arrivals = Some s' \<and> wf_state s'"
proof (induction arrivals arbitrary: s)
  case Nil
  then show ?case by simp
next
  case (Cons bytes later)
  have "wf_state (s\<lparr>serial_rx := serial_rx s @ bytes\<rparr>)"
    using Cons.prems by (simp add: wf_state_def)
  from DoCmdLine_total [OF this assms] obtain r s1 where
    d: "DoCmdLine tbl (s\<lparr>serial_rx := serial_rx s @ bytes\<rparr>) = Some (r, s1)" and w: "wf_state s1"
    by blast
  from Cons.IH [OF w] d show ?case by simp
qed

section \<open>From the scan to the dispatcher\<close>

lemma takeWhile_before_NUL:
  "takeWhile (\<lambda>c. c \<noteq> NUL) (xs @ NUL # ys) = takeWhile (\<lambda>c. c \<noteq> NUL) xs"
  by (induction xs) auto

lemma split_at_first_NUL:
  "\<exists>rest. xs @ NUL # ys = takeWhile (\<lambda>c. c \<noteq> NUL) xs @ NUL # rest"
  by (induction xs) auto

lemma terminate_line_buffer:
  "index s < length (g_cCmdBuf s) \<Longrightarrow>
   g_cCmdBuf (terminate_line s) =
     take (index s) (g_cCmdBuf s) @ NUL # drop (Suc (index s)) (g_cCmdBuf s)"
  by (simp add: terminate_line_def upd_conv_take_nth_drop)

lemma terminate_line_fields [simp]:
  "delimiter (terminate_line s) = delimiter s"
  "argv (terminate_line s) = argv s"
  "index (terminate_line s) = index s"
  "crLfcmdEnable (terminate_line s) = crLfcmdEnable s"
  by (simp_all add: terminate_line_def)

lemma newline_before_dispatch_fields [simp]:
  "delimiter (newline_before_dispatch ch s) = delimiter s"
  "g_cCmdBuf (newline_before_dispatch ch s) = g_cCmdBuf s"
  "argv (newline_before_dispatch ch s) = argv s"
  "index (newline_before_dispatch ch s) = index s"
  by (simp_all add: newline_before_dispatch_def println_def)

lemma process_line_nonempty:
  assumes "index s < length (g_cCmdBuf s)"
    and "takeWhile (\<lambda>c. c \<noteq> NUL) (take (index s) (g_cCmdBuf s)) \<noteq> []"
  shows "process_line tbl ch s =
     (case CmdLineProcess tbl (newline_before_dispatch ch (terminate_line s)) of
        None \<Rightarrow> None
      | Some (nStatus, s') \<Rightarrow> Some (1, (report_status nStatus s')\<lparr>index := 0\<rparr>))"
proof -
  have "strlen (g_cCmdBuf (terminate_line s)) =
      Some (length (takeWhile (\<lambda>c. c \<noteq> NUL) (take (index s) (g_cCmdBuf s))))"
    by (simp add: strlen_def terminate_line_buffer [OF assms(1)] takeWhile_before_NUL)
  then show ?thesis using assms(2) by (simp add: process_line_def)
qed

lemma process_line_empty:
  assumes "index s < length (g_cCmdBuf s)"
    and "takeWhile (\<lambda>c. c \<noteq> NUL) (take (index s) (g_cCmdBuf s)) = []"
  shows "process_line tbl ch s = Some (1, (terminate_line s)\<lparr>index := 0\<rparr>)"
proof -
  have "strlen (g_cCmdBuf (terminate_line s)) =
      Some (length (takeWhile (\<lambda>c. c \<noteq> NUL) (take (index s) (g_cCmdBuf s))))"
    by (simp add: strlen_def terminate_line_buffer [OF assms(1)] takeWhile_before_NUL)
  then show ?thesis using assms(2) by (simp add: process_line_def)
qed

lemma process_line_tokens:
  assumes "index s < length (g_cCmdBuf s)"
    and "line = takeWhile (\<lambda>c. c \<noteq> NUL) (take (index s) (g_cCmdBuf s))"
    and "line \<noteq> []"
    and "length (delimiter_split (delimiter s) line) \<le> CMDLINE_MAX_ARGS"
  shows "cstr_at (g_cCmdBuf (terminate_line s)) 0 = line \<and>
     (\<exists>buf' av'. length buf' = length (g_cCmdBuf s) \<and> process_line tbl ch s =
       (case dispatch tbl (length (delimiter_split (delimiter s) line))
               (delimiter_split (delimiter s) line)
               ((newline_before_dispatch ch (terminate_line s))\<lparr>g_cCmdBuf := buf', argv := av'\<rparr>) of
          None \<Rightarrow> None
        | Some (nStatus, s') \<Rightarrow> Some (1, (report_status nStatus s')\<lparr>index := 0\<rparr>)))"
proof -
  let ?s1 = "newline_before_dispatch ch (terminate_line s)"
  have c: "cstr_at (g_cCmdBuf (terminate_line s)) 0 = line"
    by (simp add: cstr_at_def terminate_line_buffer [OF assms(1)] takeWhile_before_NUL assms(2))
  from split_at_first_NUL [of "take (index s) (g_cCmdBuf s)" "drop (Suc (index s)) (g_cCmdBuf s)"]
  obtain rest where
    "take (index s) (g_cCmdBuf s) @ NUL # drop (Suc (index s)) (g_cCmdBuf s) = line @ NUL # rest"
    unfolding assms(2) by blast
  then have buf: "g_cCmdBuf ?s1 = line @ NUL # rest"
    by (simp add: terminate_line_buffer [OF assms(1)])
  have nul: "NUL \<notin> set line" unfolding assms(2) by (auto dest: set_takeWhileD)
  have n: "length (delimiter_split (delimiter ?s1) line) \<le> CMDLINE_MAX_ARGS"
    using assms(4) by simp
  from CmdLineProcess_tokens [OF nul buf n, of tbl] obtain buf' av' where
    l: "length buf' = length (g_cCmdBuf ?s1)" and
    p: "CmdLineProcess tbl ?s1 =
          dispatch tbl (length (delimiter_split (delimiter ?s1) line))
            (delimiter_split (delimiter ?s1) line) (?s1\<lparr>g_cCmdBuf := buf', argv := av'\<rparr>)"
    by blast
  have l': "length buf' = length (g_cCmdBuf s)"
    using l by (simp add: terminate_line_def)
  have "process_line tbl ch s =
       (case dispatch tbl (length (delimiter_split (delimiter s) line))
               (delimiter_split (delimiter s) line) (?s1\<lparr>g_cCmdBuf := buf', argv := av'\<rparr>) of
          None \<Rightarrow> None
        | Some (nStatus, s') \<Rightarrow> Some (1, (report_status nStatus s')\<lparr>index := 0\<rparr>))"
    using assms(2,3) p by (simp add: process_line_nonempty [OF assms(1)])
  with c l' show ?thesis by blast
qed

lemma scan_line:
  assumes "wf_state s" and "serial_rx s = l @ t # rx"
    and "\<forall>b\<in>set l. ordinary (terminators s) b"
    and "is_terminator s (mask7 t)"
    and "index s + length l \<le> CMD_BUF_SIZE - 1"
  shows "\<exists>ch S. DoCmdLine_scan (index s) NUL s = EndOfScan ch S
     \<and> (ch = (if index s + length l < CMD_BUF_SIZE - 1 then mask7 t else mask7 (last l)))
     \<and> index S < length (g_cCmdBuf S) \<and> length (g_cCmdBuf S) = CMD_BUF_SIZE
     \<and> delimiter S = delimiter s \<and> defaultFunc S = defaultFunc s \<and> errorFunc S = errorFunc s
     \<and> crLfcmdEnable S = crLfcmdEnable s
     \<and> take (index S) (g_cCmdBuf S) =
         take (index s) (g_cCmdBuf s) @ map mask7 l @
           (if mask7 t = CR \<or> mask7 t = LF \<or> CMD_BUF_SIZE - 1 \<le> index s + length l then []
            else [mask7 t])"
proof -
  let ?A = "(after_scan s l)\<lparr>serial_rx := t # rx\<rparr>"
  have len: "length (g_cCmdBuf s) = CMD_BUF_SIZE" and k: "index s < CMD_BUF_SIZE - 1"
    using assms(1) by (simp_all add: wf_state_def)
  have fit: "index s + length l \<le> length (g_cCmdBuf s)"
    using assms(5) len by (simp add: CMD_BUF_SIZE_def)
  have rx: "serial_rx s = l @ (t # rx)" using assms(2) by simp
  have sc: "DoCmdLine_scan (index s) NUL s =
      DoCmdLine_scan (index s + length l) (if l = [] then NUL else mask7 (last l)) ?A"
    by (rule scan_ordinary [OF assms(3) rx assms(5)])
  have bufA: "g_cCmdBuf ?A = take (index s) (g_cCmdBuf s) @ map mask7 l @
      drop (index s + length l) (g_cCmdBuf s)"
    by (simp add: after_scan_buffer [OF fit])
  have takeA: "take (index s + length l) (g_cCmdBuf ?A) = take (index s) (g_cCmdBuf s) @ map mask7 l"
    using fit by (simp add: bufA)
  show ?thesis
  proof (cases "index s + length l < CMD_BUF_SIZE - 1")
    case False
    then have full: "index s + length l = CMD_BUF_SIZE - 1" using assms(5) by simp
    then have ne: "l \<noteq> []" using k by auto
    have "DoCmdLine_scan (index s) NUL s = EndOfScan (mask7 (last l)) ?A"
      unfolding sc using ne full by (simp add: scan_bound)
    then show ?thesis using False full takeA len
      by (simp add: CMD_BUF_SIZE_def)
  next
    case True
    have tA: "is_terminator ?A (mask7 t)" using assms(4) by (simp add: is_terminator_def)
    have rA: "serial_rx ?A = t # rx" by simp
    note st = scan_terminator [OF True rA tA, of "if l = [] then NUL else mask7 (last l)"]
    show ?thesis
    proof (cases "mask7 t = CR \<or> mask7 t = LF")
      case crlf: True
      then show ?thesis unfolding sc st using True takeA len
        by (auto simp: CMD_BUF_SIZE_def)
    next
      case other: False
      have "take (Suc (index s + length l)) ((g_cCmdBuf ?A)[index s + length l := mask7 t])
          = take (index s) (g_cCmdBuf s) @ map mask7 l @ [mask7 t]"
        using True len takeA
        by (simp add: take_Suc_conv_app_nth CMD_BUF_SIZE_def)
      then show ?thesis unfolding sc st using True other len
        by (simp add: CMD_BUF_SIZE_def)
    qed
  qed
qed

lemma partial_line_kept:
  assumes "wf_state s" and "serial_rx s = l" and "l \<noteq> []"
    and "\<forall>b\<in>set l. ordinary (terminators s) b"
    and "index s + length l < CMD_BUF_SIZE - 1"
  shows "DoCmdLine g_sCmdTable s = Some (0, (after_scan s l)\<lparr>serial_rx := []\<rparr>)
     \<and> wf_state ((after_scan s l)\<lparr>serial_rx := []\<rparr>)
     \<and> take (index s + length l) (g_cCmdBuf (after_scan s l))
           = take (index s) (g_cCmdBuf s) @ map mask7 l"
proof -
  have len: "length (g_cCmdBuf s) = CMD_BUF_SIZE" using assms(1) by (simp add: wf_state_def)
  have fit: "index s + length l \<le> length (g_cCmdBuf s)"
    using assms(5) len by (simp add: CMD_BUF_SIZE_def)
  have le: "index s + length l \<le> CMD_BUF_SIZE - 1" using assms(5) by simp
  have rx: "serial_rx s = l @ []" using assms(2) by simp
  have "DoCmdLine_scan (index s) NUL s = NoCommandYet ((after_scan s l)\<lparr>serial_rx := []\<rparr>)"
    unfolding scan_ordinary [OF assms(4) rx le, of NUL] using assms(5) by (simp add: scan_empty)
  then show ?thesis
    using assms(2,3,5) len fit
    by (simp add: DoCmdLine_def wf_state_def after_scan_buffer [OF fit])
qed

text \<open>
  Whatever bytes a scan has read, when it ends the line in the buffer is tokenized to
  its delimiter-split (given that the line is not empty and has at most
  \<open>CMDLINE_MAX_ARGS\<close> tokens).
\<close>

lemma handle_char_delimiter: "handle_char c s = (brk, s') \<Longrightarrow> delimiter s' = delimiter s"
  by (auto simp: handle_char_def split: if_splits)

lemma scan_delimiter:
  "DoCmdLine_scan i ch s = EndOfScan ch' s' \<Longrightarrow> delimiter s' = delimiter s"
proof (induction i ch s rule: DoCmdLine_scan.induct)
  case (1 i ch s)
  show ?case
  proof (cases "i < CMD_BUF_SIZE - 1")
    case False
    then show ?thesis using "1.prems" by (subst (asm) DoCmdLine_scan.simps) simp
  next
    case i: True
    show ?thesis
    proof (cases "serial_rx s")
      case Nil
      then show ?thesis using i "1.prems" by (subst (asm) DoCmdLine_scan.simps) simp
    next
      case (Cons b rx)
      obtain brk s1 where h: "handle_char (mask7 b) (echo_char (mask7 b) (s\<lparr>serial_rx := rx\<rparr>)) = (brk, s1)"
        by (cases "handle_char (mask7 b) (echo_char (mask7 b) (s\<lparr>serial_rx := rx\<rparr>))") auto
      from handle_char_delimiter [OF h] have d1: "delimiter s1 = delimiter s" by simp
      show ?thesis
      proof (cases brk)
        case True
        then show ?thesis using i Cons h d1 "1.prems"
          by (subst (asm) DoCmdLine_scan.simps) auto
      next
        case False
        have step: "DoCmdLine_scan i ch s = DoCmdLine_scan (i + 1) (mask7 b) s1"
          using i Cons h False by (subst DoCmdLine_scan.simps) simp
        from "1.IH" [OF i Cons h [symmetric]] False "1.prems" step d1
        show ?thesis by simp
      qed
    qed
  qed
qed

lemma any_completed_line_tokenized:
  assumes "wf_state s" and "serial_rx s \<noteq> []"
    and "DoCmdLine_scan (index s) NUL s = EndOfScan ch S"
    and "line = cstr_at (g_cCmdBuf (terminate_line S)) 0"
    and "line \<noteq> []"
    and "length (delimiter_split (delimiter s) line) \<le> CMDLINE_MAX_ARGS"
  shows "\<exists>buf' av'. DoCmdLine g_sCmdTable s =
         (case dispatch g_sCmdTable
                 (length (delimiter_split (delimiter s) line))
                 (delimiter_split (delimiter s) line)
                 ((newline_before_dispatch ch (terminate_line S))\<lparr>g_cCmdBuf := buf', argv := av'\<rparr>) of
            None \<Rightarrow> None
          | Some (nStatus, s') \<Rightarrow> Some (1, (report_status nStatus s')\<lparr>index := 0\<rparr>))"
proof -
  from scan_invariant [of s "index s" NUL] assms(1,3)
  have "index S \<le> CMD_BUF_SIZE - 1" and "length (g_cCmdBuf S) = CMD_BUF_SIZE"
    by (auto simp: wf_state_def max_def)
  then have i: "index S < length (g_cCmdBuf S)" by (simp add: CMD_BUF_SIZE_def)
  have d: "delimiter S = delimiter s" by (rule scan_delimiter [OF assms(3)])
  have line: "line = takeWhile (\<lambda>c. c \<noteq> NUL) (take (index S) (g_cCmdBuf S))"
    by (simp add: assms(4) cstr_at_def terminate_line_buffer [OF i] takeWhile_before_NUL)
  have n: "length (delimiter_split (delimiter S) line) \<le> CMDLINE_MAX_ARGS"
    using assms(6) d by simp
  from process_line_tokens [OF i line assms(5) n, of g_sCmdTable ch] obtain buf' av' where
    p: "process_line g_sCmdTable ch S =
       (case dispatch g_sCmdTable (length (delimiter_split (delimiter S) line))
               (delimiter_split (delimiter S) line)
               ((newline_before_dispatch ch (terminate_line S))\<lparr>g_cCmdBuf := buf', argv := av'\<rparr>) of
          None \<Rightarrow> None
        | Some (nStatus, s') \<Rightarrow> Some (1, (report_status nStatus s')\<lparr>index := 0\<rparr>))"
    by blast
  have "DoCmdLine g_sCmdTable s = process_line g_sCmdTable ch S"
    using assms(2,3) by (simp add: DoCmdLine_def)
  with p d show ?thesis by auto
qed


section \<open>The line assembler: the claims\<close>

text \<open>
  C1, as amended. A line whose bytes \<open>l\<close> are all ordinary, that is shorter than the
  buffer (together with what the buffer already holds of it) and is followed by a
  configured terminator \<open>t\<close>, and that splits into at most \<open>CMDLINE_MAX_ARGS\<close> tokens: the
  scan ends with the completed line in the buffer, and \<open>DoCmdLine\<close> hands to the table
  lookup exactly the delimiter-split of the completed line (\<open>argc\<close> its length, \<open>argv\<close>
  its tokens, no empty token, consecutive delimiters collapsed), reports the status and
  returns 1. For "add 1 2" followed by CR, with the delimiter a space, \<open>argc\<close> is 3 and
  \<open>argv\<close> is "add", "1", "2". A line of more than \<open>CMDLINE_MAX_ARGS\<close> tokens is not
  tokenized to its split: \<open>CmdLineProcess\<close> returns \<open>CMDLINE_TOO_MANY_ARGS\<close> (see the
  concrete runs of \<open>DoCmdLine\<close> below).
\<close>

theorem completed_line_tokenized:
  assumes "wf_state s"
    and "serial_rx s = l @ t # rx"
    and "\<forall>b\<in>set l. ordinary (terminators s) b"
    and "is_terminator s (mask7 t)"
    and "index s + length l < CMD_BUF_SIZE"
    and "line = completed_line (take (index s) (g_cCmdBuf s)) l t"
    and "line \<noteq> []"
    and "length (delimiter_split (delimiter s) line) \<le> CMDLINE_MAX_ARGS"
  shows "\<exists>ch S buf' av'.
       DoCmdLine_scan (index s) NUL s = EndOfScan ch S
     \<and> cstr_at (g_cCmdBuf (terminate_line S)) 0 = line
     \<and> DoCmdLine g_sCmdTable s =
         (case dispatch g_sCmdTable
                 (length (delimiter_split (delimiter s) line))
                 (delimiter_split (delimiter s) line)
                 ((newline_before_dispatch ch (terminate_line S))\<lparr>g_cCmdBuf := buf', argv := av'\<rparr>) of
            None \<Rightarrow> None
          | Some (nStatus, s') \<Rightarrow> Some (1, (report_status nStatus s')\<lparr>index := 0\<rparr>))"
proof -
  have k: "index s < length (g_cCmdBuf s)" using assms(1) by (auto simp: wf_state_def)
  have fit: "index s + length l \<le> CMD_BUF_SIZE - 1"
    using assms(5) by (simp add: CMD_BUF_SIZE_def)
  from scan_line [OF assms(1,2,3,4) fit] obtain ch S where
    sc: "DoCmdLine_scan (index s) NUL s = EndOfScan ch S"
    and i: "index S < length (g_cCmdBuf S)"
    and d: "delimiter S = delimiter s"
    and tk: "take (index S) (g_cCmdBuf S) =
         take (index s) (g_cCmdBuf s) @ map mask7 l @
           (if mask7 t = CR \<or> mask7 t = LF \<or> CMD_BUF_SIZE - 1 \<le> index s + length l then []
            else [mask7 t])"
    by blast
  have line: "line = takeWhile (\<lambda>c. c \<noteq> NUL) (take (index S) (g_cCmdBuf S))"
    unfolding tk assms(6) completed_line_def using k by simp
  have n: "length (delimiter_split (delimiter S) line) \<le> CMDLINE_MAX_ARGS"
    using assms(8) d by simp
  from process_line_tokens [OF i line assms(7) n, of g_sCmdTable ch] obtain buf' av' where
    c: "cstr_at (g_cCmdBuf (terminate_line S)) 0 = line" and
    p: "process_line g_sCmdTable ch S =
       (case dispatch g_sCmdTable (length (delimiter_split (delimiter S) line))
               (delimiter_split (delimiter S) line)
               ((newline_before_dispatch ch (terminate_line S))\<lparr>g_cCmdBuf := buf', argv := av'\<rparr>) of
          None \<Rightarrow> None
        | Some (nStatus, s') \<Rightarrow> Some (1, (report_status nStatus s')\<lparr>index := 0\<rparr>))"
    by blast
  have "DoCmdLine g_sCmdTable s = process_line g_sCmdTable ch S"
    using assms(2) sc by (simp add: DoCmdLine_def)
  with sc c p d show ?thesis by auto
qed

text \<open>
  C8, as amended. In every state between two polls (\<open>wf_state\<close>): a backspace byte that
  is not a configured terminator moves the cursor back by exactly one and leaves the
  buffer bytes alone, and at cursor 0 it leaves the cursor at 0; a scan that returns
  "no command yet" leaves a state with the cursor below \<open>CMD_BUF_SIZE - 1\<close>; a scan
  that ends does so with the cursor at most \<open>CMD_BUF_SIZE - 1\<close>, inside the buffer, and
  the buffer that is then read as a string has a NUL at the cursor; and for every
  table with a null-name entry \<open>DoCmdLine\<close> returns (it never reads past the buffer) in
  a state of the same kind, and so does every run of polls, whatever bytes arrive
  between them. The received bytes are arbitrary: \<open>serial_rx s\<close> is any list. (A
  backspace that is configured as a terminator is stored and ends the line: see the
  concrete runs of \<open>DoCmdLine\<close> below.)
\<close>

theorem backspace_and_cursor_bound:
  assumes "wf_state s"
  shows "(\<forall>i ch b rx. i < CMD_BUF_SIZE - 1 \<and> serial_rx s = b # rx \<and> mask7 b = CHAR_BS
            \<and> \<not> is_terminator s CHAR_BS \<longrightarrow>
          DoCmdLine_scan i ch s =
            DoCmdLine_scan (i + 1) CHAR_BS
              ((echo_char CHAR_BS (s\<lparr>serial_rx := rx\<rparr>))
                 \<lparr>index := (if index s = 0 then 0 else index s - 1)\<rparr>))
     \<and> (\<forall>i ch s'. index s \<le> i \<and> DoCmdLine_scan i ch s = NoCommandYet s' \<longrightarrow> wf_state s')
     \<and> (\<forall>i ch ch' s'. index s \<le> i \<and> i \<le> CMD_BUF_SIZE - 1
            \<and> DoCmdLine_scan i ch s = EndOfScan ch' s' \<longrightarrow>
          index s' \<le> CMD_BUF_SIZE - 1 \<and> index s' < length (g_cCmdBuf s')
          \<and> g_cCmdBuf (terminate_line s') ! index s' = NUL
          \<and> strlen (g_cCmdBuf (terminate_line s')) \<noteq> None)
     \<and> (\<forall>g_sCmdTable. (\<exists>e\<in>set g_sCmdTable. pcCmd e = None) \<longrightarrow>
          (\<exists>r s'. DoCmdLine g_sCmdTable s = Some (r, s') \<and> wf_state s'))
     \<and> (\<forall>g_sCmdTable arrivals. (\<exists>e\<in>set g_sCmdTable. pcCmd e = None) \<longrightarrow>
          (\<exists>s'. polls g_sCmdTable s arrivals = Some s' \<and> wf_state s'))"
proof -
  have bs: "DoCmdLine_scan i ch s =
            DoCmdLine_scan (i + 1) CHAR_BS
              ((echo_char CHAR_BS (s\<lparr>serial_rx := rx\<rparr>))
                 \<lparr>index := (if index s = 0 then 0 else index s - 1)\<rparr>)"
    if a: "i < CMD_BUF_SIZE - 1 \<and> serial_rx s = b # rx \<and> mask7 b = CHAR_BS
            \<and> \<not> is_terminator s CHAR_BS" for i ch b rx
  proof -
    from a have nt: "\<not> is_terminator (echo_char CHAR_BS (s\<lparr>serial_rx := rx\<rparr>)) CHAR_BS"
      by (simp add: is_terminator_def)
    have h: "handle_char CHAR_BS (echo_char CHAR_BS (s\<lparr>serial_rx := rx\<rparr>)) =
        (False, (echo_char CHAR_BS (s\<lparr>serial_rx := rx\<rparr>))
                   \<lparr>index := (if index s = 0 then 0 else index s - 1)\<rparr>)"
      using nt by (simp add: handle_char_def)
    show ?thesis using a h by (subst DoCmdLine_scan.simps) simp
  qed
  have no: "wf_state s'" if "index s \<le> i \<and> DoCmdLine_scan i ch s = NoCommandYet s'" for i ch s'
    using that scan_invariant [of s i ch] assms by (auto simp: wf_state_def)
  have eos: "index s' \<le> CMD_BUF_SIZE - 1 \<and> index s' < length (g_cCmdBuf s')
          \<and> g_cCmdBuf (terminate_line s') ! index s' = NUL
          \<and> strlen (g_cCmdBuf (terminate_line s')) \<noteq> None"
    if a: "index s \<le> i \<and> i \<le> CMD_BUF_SIZE - 1 \<and> DoCmdLine_scan i ch s = EndOfScan ch' s'"
    for i ch ch' s'
  proof -
    from a scan_invariant [of s i ch] assms
    have b: "index s' \<le> CMD_BUF_SIZE - 1" and l: "length (g_cCmdBuf s') = CMD_BUF_SIZE"
      by (auto simp: wf_state_def max_def)
    then have lt: "index s' < length (g_cCmdBuf s')" by (simp add: CMD_BUF_SIZE_def)
    from terminate_line_NUL [OF lt] b lt show ?thesis by (simp add: strlen_def)
  qed
  have tot: "\<exists>r s'. DoCmdLine g_sCmdTable s = Some (r, s') \<and> wf_state s'"
    if "\<exists>e\<in>set g_sCmdTable. pcCmd e = None" for g_sCmdTable
    using DoCmdLine_total [OF assms that] by blast
  have run: "\<exists>s'. polls g_sCmdTable s arrivals = Some s' \<and> wf_state s'"
    if "\<exists>e\<in>set g_sCmdTable. pcCmd e = None" for g_sCmdTable arrivals
    using polls_total [OF that assms] by blast
  show ?thesis
    by (intro conjI allI impI; (erule bs no tot run | (drule eos, simp)))
qed

text \<open>
  C9, as amended. If ordinary bytes fill the buffer, so that the cursor reaches
  \<open>CMD_BUF_SIZE - 1\<close> before a terminator is read, the scan ends as it does on a
  terminator: the buffer is terminated at \<open>CMD_BUF_SIZE - 1\<close> and the accumulated
  content, when not empty as a string, is passed to \<open>CmdLineProcess\<close> by that same poll,
  which reports the status, resets the cursor and returns 1.
\<close>

theorem full_buffer_is_dispatched:
  assumes "wf_state s" and "serial_rx s = l @ rx"
    and "\<forall>b\<in>set l. ordinary (terminators s) b"
    and "index s + length l = CMD_BUF_SIZE - 1"
    and "takeWhile (\<lambda>c. c \<noteq> NUL) (take (index s) (g_cCmdBuf s) @ map mask7 l) \<noteq> []"
  shows "DoCmdLine_scan (index s) NUL s
           = EndOfScan (mask7 (last l)) ((after_scan s l)\<lparr>serial_rx := rx\<rparr>)
     \<and> index (after_scan s l) = CMD_BUF_SIZE - 1
     \<and> g_cCmdBuf (terminate_line ((after_scan s l)\<lparr>serial_rx := rx\<rparr>))
           = take (index s) (g_cCmdBuf s) @ map mask7 l @ [NUL]
     \<and> DoCmdLine g_sCmdTable s =
         (case CmdLineProcess g_sCmdTable
                 (newline_before_dispatch (mask7 (last l))
                    (terminate_line ((after_scan s l)\<lparr>serial_rx := rx\<rparr>))) of
            None \<Rightarrow> None
          | Some (nStatus, s') \<Rightarrow> Some (1, (report_status nStatus s')\<lparr>index := 0\<rparr>))"
proof -
  let ?A = "(after_scan s l)\<lparr>serial_rx := rx\<rparr>"
  have len: "length (g_cCmdBuf s) = CMD_BUF_SIZE" and k: "index s < CMD_BUF_SIZE - 1"
    using assms(1) by (simp_all add: wf_state_def)
  have ne: "l \<noteq> []" using assms(4) k by auto
  have le: "index s + length l \<le> CMD_BUF_SIZE - 1" using assms(4) by simp
  have fit: "index s + length l \<le> length (g_cCmdBuf s)"
    using assms(4) len by (simp add: CMD_BUF_SIZE_def)
  have sc: "DoCmdLine_scan (index s) NUL s = EndOfScan (mask7 (last l)) ?A"
    unfolding scan_ordinary [OF assms(3,2) le, of NUL] using ne assms(4) by (simp add: scan_bound)
  have iA: "index ?A = CMD_BUF_SIZE - 1" using assms(4) by simp
  have lt: "index ?A < length (g_cCmdBuf ?A)" using iA len by (simp add: CMD_BUF_SIZE_def)
  have bufA: "g_cCmdBuf ?A = take (index s) (g_cCmdBuf s) @ map mask7 l @
      drop (index s + length l) (g_cCmdBuf s)"
    by (simp add: after_scan_buffer [OF fit])
  have takeA: "take (index ?A) (g_cCmdBuf ?A) = take (index s) (g_cCmdBuf s) @ map mask7 l"
    using fit by (simp add: bufA)
  have dr: "drop (Suc (index ?A)) (g_cCmdBuf ?A) = []"
    using iA len by (simp add: CMD_BUF_SIZE_def)
  have tb: "g_cCmdBuf (terminate_line ?A) = take (index s) (g_cCmdBuf s) @ map mask7 l @ [NUL]"
    unfolding terminate_line_buffer [OF lt] takeA dr by simp
  have nz: "takeWhile (\<lambda>c. c \<noteq> NUL) (take (index ?A) (g_cCmdBuf ?A)) \<noteq> []"
    unfolding takeA by (rule assms(5))
  have "serial_rx s \<noteq> []" using assms(2) ne by simp
  then have "DoCmdLine g_sCmdTable s = process_line g_sCmdTable (mask7 (last l)) ?A"
    using sc by (simp add: DoCmdLine_def)
  with sc tb process_line_nonempty [OF lt nz, of g_sCmdTable "mask7 (last l)"] assms(4)
  show ?thesis by simp
qed

text \<open>
  C10. When the second terminator slot holds NUL (one terminator configured, as after
  \<open>SetDefaults\<close>), a received byte that is NUL after masking is a terminator: the scan
  ends at it (at whatever value of the loop counter it is read, after any ordinary
  bytes \<open>l\<close>), the buffer read as a string is the content buffered so far, and that
  content is passed to \<open>CmdLineProcess\<close> when it is not empty (and the poll returns 1
  with the cursor reset either way).
\<close>

theorem nul_byte_completes_line:
  assumes "wf_state s" and "terminators s 1 = NUL" and "mask7 b = NUL"
    and "serial_rx s = l @ b # rx"
    and "\<forall>c\<in>set l. ordinary (terminators s) c"
    and "index s + length l < CMD_BUF_SIZE - 1"
  shows "is_terminator s (mask7 b)
     \<and> (\<forall>i ch. i + length l < CMD_BUF_SIZE - 1 \<longrightarrow>
          DoCmdLine_scan i ch s =
            EndOfScan NUL ((store_char NUL (echo_char NUL (after_scan s l)))\<lparr>serial_rx := rx\<rparr>))
     \<and> cstr_at (g_cCmdBuf (terminate_line
           ((store_char NUL (echo_char NUL (after_scan s l)))\<lparr>serial_rx := rx\<rparr>))) 0
         = takeWhile (\<lambda>c. c \<noteq> NUL) (take (index s) (g_cCmdBuf s) @ map mask7 l)
     \<and> DoCmdLine g_sCmdTable s =
         (if takeWhile (\<lambda>c. c \<noteq> NUL) (take (index s) (g_cCmdBuf s) @ map mask7 l) \<noteq> []
          then (case CmdLineProcess g_sCmdTable
                       (terminate_line
                          ((store_char NUL (echo_char NUL (after_scan s l)))\<lparr>serial_rx := rx\<rparr>)) of
                  None \<Rightarrow> None
                | Some (nStatus, s') \<Rightarrow> Some (1, (report_status nStatus s')\<lparr>index := 0\<rparr>))
          else Some (1, (terminate_line
                 ((store_char NUL (echo_char NUL (after_scan s l)))\<lparr>serial_rx := rx\<rparr>))
                   \<lparr>index := 0\<rparr>))"
proof -
  let ?A = "(after_scan s l)\<lparr>serial_rx := b # rx\<rparr>"
  let ?S = "(store_char NUL (echo_char NUL (after_scan s l)))\<lparr>serial_rx := rx\<rparr>"
  let ?content = "take (index s) (g_cCmdBuf s) @ map mask7 l"
  have len: "length (g_cCmdBuf s) = CMD_BUF_SIZE" using assms(1) by (simp add: wf_state_def)
  have t: "is_terminator s (mask7 b)" using assms(2,3) by (simp add: is_terminator_def)
  have le: "index s + length l \<le> CMD_BUF_SIZE - 1" using assms(6) by simp
  have fit: "index s + length l \<le> length (g_cCmdBuf s)"
    using assms(6) len by (simp add: CMD_BUF_SIZE_def)
  have rx: "serial_rx s = l @ (b # rx)" using assms(4) by simp
  have tA: "is_terminator ?A (mask7 b)" using t by (simp add: is_terminator_def)
  have rA: "serial_rx ?A = b # rx" by simp
  have S: "store_char NUL (echo_char NUL (?A\<lparr>serial_rx := rx\<rparr>)) = ?S"
    by (simp add: store_char_def echo_char_def)
  have scan: "DoCmdLine_scan i ch s = EndOfScan NUL ?S" if i: "i + length l < CMD_BUF_SIZE - 1"
    for i ch
  proof -
    have le_i: "i + length l \<le> CMD_BUF_SIZE - 1" using i by simp
    show ?thesis
      unfolding scan_ordinary [OF assms(5) rx le_i, of ch] scan_terminator [OF i rA tA]
      using assms(3) S by (simp add: NUL_def CR_def LF_def)
  qed
  have sc: "DoCmdLine_scan (index s) NUL s = EndOfScan NUL ?S"
    by (rule scan [OF assms(6)])
  have iS: "index ?S = Suc (index s + length l)" by simp
  have lt: "index ?S < length (g_cCmdBuf ?S)" using assms(6) len by (simp add: CMD_BUF_SIZE_def)
  have bufA: "g_cCmdBuf (after_scan s l) = ?content @ drop (index s + length l) (g_cCmdBuf s)"
    by (simp add: after_scan_buffer [OF fit])
  have takeS: "take (index ?S) (g_cCmdBuf ?S) = ?content @ [NUL]"
    using fit assms(6) len by (simp add: bufA take_Suc_conv_app_nth CMD_BUF_SIZE_def)
  have tw: "takeWhile (\<lambda>c. c \<noteq> NUL) (take (index ?S) (g_cCmdBuf ?S))
      = takeWhile (\<lambda>c. c \<noteq> NUL) ?content"
    unfolding takeS using takeWhile_before_NUL [of ?content "[]"] by simp
  have c: "cstr_at (g_cCmdBuf (terminate_line ?S)) 0 = takeWhile (\<lambda>c. c \<noteq> NUL) ?content"
    by (simp only: cstr_at_def drop_0 terminate_line_buffer [OF lt] takeWhile_before_NUL tw)
  have nl: "newline_before_dispatch NUL (terminate_line ?S) = terminate_line ?S"
    by (simp add: newline_before_dispatch_def NUL_def CR_def LF_def)
  have "serial_rx s \<noteq> []" using assms(4) by simp
  then have d: "DoCmdLine g_sCmdTable s = process_line g_sCmdTable NUL ?S"
    using sc by (simp add: DoCmdLine_def)
  have p: "process_line g_sCmdTable NUL ?S =
         (if takeWhile (\<lambda>c. c \<noteq> NUL) ?content \<noteq> []
          then (case CmdLineProcess g_sCmdTable (terminate_line ?S) of
                  None \<Rightarrow> None
                | Some (nStatus, s') \<Rightarrow> Some (1, (report_status nStatus s')\<lparr>index := 0\<rparr>))
          else Some (1, (terminate_line ?S)\<lparr>index := 0\<rparr>))"
  proof (cases "takeWhile (\<lambda>c. c \<noteq> NUL) ?content = []")
    case True
    then show ?thesis using process_line_empty [OF lt, of g_sCmdTable NUL] tw by simp
  next
    case False
    then show ?thesis using process_line_nonempty [OF lt, of g_sCmdTable NUL] tw nl by simp
  qed
  from t scan c d p show ?thesis by simp
qed

section \<open>Concrete runs of DoCmdLine\<close>

lemma replicate_numeral: "replicate (numeral k) x = x # replicate (pred_numeral k) x"
  by (simp add: numeral_eq_Suc)

lemmas DoCmdLine_eval =
  replicate_numeral DoCmdLine_def DoCmdLine_scan.simps handle_char_def is_terminator_def
  echo_char_def store_char_def mask7_def process_line_def terminate_line_def strlen_def
  newline_before_dispatch_def println_def report_status_def CmdLineProcess_eval

lemmas hyp_eval =
  wf_state_def ordinary_def is_terminator_def completed_line_def delimiter_split_def
  mask7_def state_eval char_eval

text \<open>The bytes of "add 1 2" and CR, with the default delimiter and terminator.\<close>

theorem completed_line_tokenized_witness:
  "\<exists>ch S buf' av'.
       DoCmdLine_scan 0 NUL ((new_CommandLine False)\<lparr>serial_rx := ''add 1 2'' @ [CR]\<rparr>)
         = EndOfScan ch S
     \<and> cstr_at (g_cCmdBuf (terminate_line S)) 0 = ''add 1 2''
     \<and> DoCmdLine [\<lparr>pcCmd = Some ''add'', pfnCmd = (\<lambda>argc args. 0), pcHelp = None\<rparr>, end_of_table]
         ((new_CommandLine False)\<lparr>serial_rx := ''add 1 2'' @ [CR]\<rparr>) =
         (case dispatch [\<lparr>pcCmd = Some ''add'', pfnCmd = (\<lambda>argc args. 0), pcHelp = None\<rparr>, end_of_table]
                 (length [''add'', ''1'', ''2'']) [''add'', ''1'', ''2'']
                 ((newline_before_dispatch ch (terminate_line S))\<lparr>g_cCmdBuf := buf', argv := av'\<rparr>) of
            None \<Rightarrow> None
          | Some (nStatus, s') \<Rightarrow> Some (1, (report_status nStatus s')\<lparr>index := 0\<rparr>))"
  using completed_line_tokenized [where s = "(new_CommandLine False)\<lparr>serial_rx := ''add 1 2'' @ [CR]\<rparr>"
      and l = "''add 1 2''" and t = CR and rx = "[]" and line = "''add 1 2''"
      and g_sCmdTable = "[\<lparr>pcCmd = Some ''add'', pfnCmd = (\<lambda>argc args. 0), pcHelp = None\<rparr>, end_of_table]"]
  by (simp add: hyp_eval)

text \<open>
  A line of 21 bytes and eleven tokens, followed by CR: the poll prints the
  too-many-arguments message; the eleven tokens of its split are not produced.
\<close>

theorem too_many_tokens_counterexample:
  "map_option (\<lambda>r. (fst r, events (snd r)))
     (DoCmdLine [end_of_table]
        ((new_CommandLine False)\<lparr>defaultFunc := Some (\<lambda>argc args. 0),
           serial_rx := ''a b c d e f g h i j k'' @ [CR]\<rparr>))
     = Some (1, [SerialPrintln [], SerialPrintln ''Too many arguments for command processor!''])
   \<and> length ''a b c d e f g h i j k'' < CMD_BUF_SIZE
   \<and> delimiter_split (CHR 0x20) ''a b c d e f g h i j k''
       = [''a'', ''b'', ''c'', ''d'', ''e'', ''f'', ''g'', ''h'', ''i'', ''j'', ''k'']"
  by (simp add: DoCmdLine_eval delimiter_split_def)

lemma DoCmdLine_add_1_2:
  "map_option (\<lambda>r. (fst r, events (snd r), index (snd r)))
     (DoCmdLine [\<lparr>pcCmd = Some ''ADD'', pfnCmd = (\<lambda>argc args. 0), pcHelp = None\<rparr>, end_of_table]
        ((new_CommandLine False)\<lparr>serial_rx := ''add 1 2'' @ [CR]\<rparr>))
   = Some (1, [SerialPrintln [], ReadEntry 0, CallCommand 0 3 [''add'', ''1'', ''2'']], 0)"
  by (simp add: DoCmdLine_eval)

text \<open>A backspace at cursor 2 and at cursor 0, in the default configuration.\<close>

theorem backspace_and_cursor_bound_witness:
  "DoCmdLine_scan 2 NUL ((new_CommandLine False)\<lparr>index := 2, serial_rx := [CHAR_BS, CR]\<rparr>) =
     DoCmdLine_scan 3 CHAR_BS ((new_CommandLine False)\<lparr>index := 1, serial_rx := [CR]\<rparr>)
   \<and> DoCmdLine_scan 0 NUL ((new_CommandLine False)\<lparr>index := 0, serial_rx := [CHAR_BS, CR]\<rparr>) =
     DoCmdLine_scan 1 CHAR_BS ((new_CommandLine False)\<lparr>index := 0, serial_rx := [CR]\<rparr>)
   \<and> (\<exists>r s'. DoCmdLine [end_of_table]
                 ((new_CommandLine False)\<lparr>index := 2, serial_rx := [CHAR_BS, CR]\<rparr>) = Some (r, s')
              \<and> wf_state s')"
proof -
  have wf2: "wf_state ((new_CommandLine False)\<lparr>index := 2, serial_rx := [CHAR_BS, CR]\<rparr>)"
    and wf0: "wf_state ((new_CommandLine False)\<lparr>index := 0, serial_rx := [CHAR_BS, CR]\<rparr>)"
    by (simp_all add: hyp_eval)
  note a = backspace_and_cursor_bound [OF wf2, THEN conjunct1, rule_format, of 2 CHAR_BS "[CR]" NUL]
  note b = backspace_and_cursor_bound [OF wf0, THEN conjunct1, rule_format, of 0 CHAR_BS "[CR]" NUL]
  note c = backspace_and_cursor_bound [OF wf2, THEN conjunct2, THEN conjunct2, THEN conjunct2,
      THEN conjunct1, rule_format, of "[end_of_table]"]
  from a b c show ?thesis
    by (simp add: hyp_eval echo_char_def)
qed

text \<open>
  After \<^verbatim>\<open>Terminators("\b")\<close> the bytes 'a' and backspace: the backspace does not remove
  the 'a'; it is stored after it and ends the line, which is dispatched as one token of
  two characters.
\<close>

theorem backspace_terminator_counterexample:
  "map_option (\<lambda>r. (fst r, events (snd r)))
     (DoCmdLine [end_of_table]
        ((Terminators [CHAR_BS] (new_CommandLine False))\<lparr>defaultFunc := Some (\<lambda>argc args. 0),
           serial_rx := [CHR ''a'', CHAR_BS]\<rparr>))
     = Some (1, [ReadEntry 0, CallDefault 1 [[CHR ''a'', CHAR_BS]]])"
  by (simp add: DoCmdLine_eval Terminators_def)

text \<open>79 bytes 'a' fill the buffer; the bytes 'b' and CR after them are not read by this poll.\<close>

theorem full_buffer_is_dispatched_witness:
  "DoCmdLine_scan 0 NUL
       ((new_CommandLine False)\<lparr>serial_rx := ''aaaaaaaaaaaaaaaaaaaaaaaaaaaaaaaaaaaaaaaaaaaaaaaaaaaaaaaaaaaaaaaaaaaaaaaaaaaaaaa'' @ [CHR ''b'', CR]\<rparr>)
     = EndOfScan (CHR ''a'')
         ((after_scan ((new_CommandLine False)\<lparr>serial_rx := ''aaaaaaaaaaaaaaaaaaaaaaaaaaaaaaaaaaaaaaaaaaaaaaaaaaaaaaaaaaaaaaaaaaaaaaaaaaaaaaa'' @ [CHR ''b'', CR]\<rparr>) ''aaaaaaaaaaaaaaaaaaaaaaaaaaaaaaaaaaaaaaaaaaaaaaaaaaaaaaaaaaaaaaaaaaaaaaaaaaaaaaa'')
            \<lparr>serial_rx := [CHR ''b'', CR]\<rparr>)
   \<and> index (after_scan ((new_CommandLine False)\<lparr>serial_rx := ''aaaaaaaaaaaaaaaaaaaaaaaaaaaaaaaaaaaaaaaaaaaaaaaaaaaaaaaaaaaaaaaaaaaaaaaaaaaaaaa'' @ [CHR ''b'', CR]\<rparr>) ''aaaaaaaaaaaaaaaaaaaaaaaaaaaaaaaaaaaaaaaaaaaaaaaaaaaaaaaaaaaaaaaaaaaaaaaaaaaaaaa'') = 79
   \<and> g_cCmdBuf (terminate_line
        ((after_scan ((new_CommandLine False)\<lparr>serial_rx := ''aaaaaaaaaaaaaaaaaaaaaaaaaaaaaaaaaaaaaaaaaaaaaaaaaaaaaaaaaaaaaaaaaaaaaaaaaaaaaaa'' @ [CHR ''b'', CR]\<rparr>) ''aaaaaaaaaaaaaaaaaaaaaaaaaaaaaaaaaaaaaaaaaaaaaaaaaaaaaaaaaaaaaaaaaaaaaaaaaaaaaaa'')
            \<lparr>serial_rx := [CHR ''b'', CR]\<rparr>))
       = ''aaaaaaaaaaaaaaaaaaaaaaaaaaaaaaaaaaaaaaaaaaaaaaaaaaaaaaaaaaaaaaaaaaaaaaaaaaaaaaa'' @ [NUL]
   \<and> DoCmdLine [end_of_table]
       ((new_CommandLine False)\<lparr>serial_rx := ''aaaaaaaaaaaaaaaaaaaaaaaaaaaaaaaaaaaaaaaaaaaaaaaaaaaaaaaaaaaaaaaaaaaaaaaaaaaaaaa'' @ [CHR ''b'', CR]\<rparr>) =
       (case CmdLineProcess [end_of_table]
               (terminate_line
                  ((after_scan ((new_CommandLine False)\<lparr>serial_rx := ''aaaaaaaaaaaaaaaaaaaaaaaaaaaaaaaaaaaaaaaaaaaaaaaaaaaaaaaaaaaaaaaaaaaaaaaaaaaaaaa'' @ [CHR ''b'', CR]\<rparr>) ''aaaaaaaaaaaaaaaaaaaaaaaaaaaaaaaaaaaaaaaaaaaaaaaaaaaaaaaaaaaaaaaaaaaaaaaaaaaaaaa'')
                     \<lparr>serial_rx := [CHR ''b'', CR]\<rparr>)) of
          None \<Rightarrow> None
        | Some (nStatus, s') \<Rightarrow> Some (1, (report_status nStatus s')\<lparr>index := 0\<rparr>))"
  using full_buffer_is_dispatched [where s = "(new_CommandLine False)\<lparr>serial_rx := ''aaaaaaaaaaaaaaaaaaaaaaaaaaaaaaaaaaaaaaaaaaaaaaaaaaaaaaaaaaaaaaaaaaaaaaaaaaaaaaa'' @ [CHR ''b'', CR]\<rparr>"
      and l = "''aaaaaaaaaaaaaaaaaaaaaaaaaaaaaaaaaaaaaaaaaaaaaaaaaaaaaaaaaaaaaaaaaaaaaaaaaaaaaaa''"
      and rx = "[CHR ''b'', CR]" and g_sCmdTable = "[end_of_table]"]
  by (simp add: hyp_eval newline_before_dispatch_def)

text \<open>
  The same input with a default handler installed: the poll that fills the buffer
  calls the handler with the 79 characters as the one token, and returns 1.
\<close>

theorem full_buffer_counterexample:
  "map_option (\<lambda>r. (fst r, events (snd r), index (snd r), serial_rx (snd r)))
     (DoCmdLine [end_of_table]
        ((new_CommandLine False)\<lparr>defaultFunc := Some (\<lambda>argc args. 0),
           serial_rx := ''aaaaaaaaaaaaaaaaaaaaaaaaaaaaaaaaaaaaaaaaaaaaaaaaaaaaaaaaaaaaaaaaaaaaaaaaaaaaaaa'' @ [CHR ''b'', CR]\<rparr>))
   = Some (1, [ReadEntry 0,
               CallDefault 1 [''aaaaaaaaaaaaaaaaaaaaaaaaaaaaaaaaaaaaaaaaaaaaaaaaaaaaaaaaaaaaaaaaaaaaaaaaaaaaaaa'']],
           0, [CHR ''b'', CR])"
  by (simp add: DoCmdLine_eval)

text \<open>The bytes 'h', 'i', NUL, 'x' in the default configuration: the line "hi" ends at the NUL.\<close>

theorem nul_byte_completes_line_witness:
  "is_terminator ((new_CommandLine False)\<lparr>serial_rx := ''hi'' @ [NUL, CHR ''x'']\<rparr>) (mask7 NUL)
   \<and> DoCmdLine_scan 0 NUL ((new_CommandLine False)\<lparr>serial_rx := ''hi'' @ [NUL, CHR ''x'']\<rparr>) =
       EndOfScan NUL ((store_char NUL (echo_char NUL (after_scan ((new_CommandLine False)\<lparr>serial_rx := ''hi'' @ [NUL, CHR ''x'']\<rparr>) ''hi'')))
                        \<lparr>serial_rx := [CHR ''x'']\<rparr>)
   \<and> cstr_at (g_cCmdBuf (terminate_line
         ((store_char NUL (echo_char NUL (after_scan ((new_CommandLine False)\<lparr>serial_rx := ''hi'' @ [NUL, CHR ''x'']\<rparr>) ''hi'')))
            \<lparr>serial_rx := [CHR ''x'']\<rparr>))) 0 = ''hi''
   \<and> DoCmdLine [end_of_table] ((new_CommandLine False)\<lparr>serial_rx := ''hi'' @ [NUL, CHR ''x'']\<rparr>) =
       (case CmdLineProcess [end_of_table]
               (terminate_line
                  ((store_char NUL (echo_char NUL (after_scan ((new_CommandLine False)\<lparr>serial_rx := ''hi'' @ [NUL, CHR ''x'']\<rparr>) ''hi'')))
                     \<lparr>serial_rx := [CHR ''x'']\<rparr>)) of
          None \<Rightarrow> None
        | Some (nStatus, s') \<Rightarrow> Some (1, (report_status nStatus s')\<lparr>index := 0\<rparr>))"
  using nul_byte_completes_line [where s = "(new_CommandLine False)\<lparr>serial_rx := ''hi'' @ [NUL, CHR ''x'']\<rparr>"
      and b = NUL and l = "''hi''" and rx = "[CHR ''x'']" and g_sCmdTable = "[end_of_table]"]
  by (simp add: hyp_eval)

lemma DoCmdLine_hi_NUL:
  "map_option (\<lambda>r. (fst r, events (snd r), index (snd r), serial_rx (snd r)))
     (DoCmdLine [end_of_table]
        ((new_CommandLine True)\<lparr>defaultFunc := Some (\<lambda>argc args. 0),
           serial_rx := ''hi'' @ [NUL, CHR ''x'']\<rparr>))
   = Some (1, [SerialWrite (CHR ''h''), SerialWrite (CHR ''i''), SerialWrite NUL,
               ReadEntry 0, CallDefault 1 [''hi'']], 0, [CHR ''x''])"
  by (simp add: DoCmdLine_eval)

end
